theory Spec2Isabelle
  imports Complex_Main
begin

section \<open>Values, errors and arrays\<close>

text \<open>
  The module \<^verbatim>\<open>pybnn/bohamiann.py\<close> is embedded function by function. Floating-point
  numbers are modelled by the reals: the formulas of the source are kept operation by
  operation, but rounding, overflow, infinities and nan are outside the model.

  Every exception the source can raise is a value of \<open>error\<close>. Three constructors
  are not exceptions of the source: \<open>NotANumber\<close> stands for a float result nan, which a
  real cannot hold (the mean over an empty batch), \<open>Hangs\<close> stands for a call that never
  returns (a \<^verbatim>\<open>for\<close> loop that waits for a batch of an empty data set for ever), and
  \<open>NotTrained\<close> stands for the dedicated "not trained" signal that the spec (section 7)
  asks of a prediction before training. The source has no check of \<^verbatim>\<open>is_trained\<close> or
  of the snapshot store and no exception of its own, so no definition below returns
  \<open>NotTrained\<close>; it is there to say so in a theorem.
\<close>

datatype error =
    AssertionError
  | UnboundLocalError
  | ValueError
  | ZeroDivisionError
  | AttributeError
  | IndexError
  | RuntimeError
  | NotANumber
  | Hangs
  | NotTrained

text \<open>
  A tensor (a parameter of the network, or the numpy array of a snapshot) is its shape
  and the flat buffer of its elements in row-major order; a tensor of shape
  \<open>[d\<^sub>1, ..., d\<^sub>n]\<close> has \<open>d\<^sub>1 * ... * d\<^sub>n\<close> elements. A two-dimensional numpy array of
  data (the training inputs \<^verbatim>\<open>x_train\<close> of shape (N, D), the test inputs) is its number
  of columns and its rows, each row of that length; \<^verbatim>\<open>x.shape\<close> is \<open>shape x\<close>.
\<close>

record tensor =
  sizes :: "nat list"
  elems :: "real list"

record ndarray =
  ncols :: nat
  rows :: "real list list"

definition shape :: "ndarray \<Rightarrow> nat \<times> nat" where
  "shape x = (length (rows x), ncols x)"

section \<open>The loss: \<^verbatim>\<open>nll\<close> (lines 47-61)\<close>

text \<open>
  Elementwise arithmetic of two column tensors of shapes (a, 1) and (b, 1) follows
  torch's broadcasting: equal sizes go elementwise, a size of one is repeated, and any
  other pair of sizes raises.
\<close>

definition broadcast2 :: "('a \<Rightarrow> 'b \<Rightarrow> 'c) \<Rightarrow> 'a list \<Rightarrow> 'b list \<Rightarrow> 'c list option" where
  "broadcast2 f xs ys =
     (if length xs = length ys then Some (map2 f xs ys)
      else if length ys = 1 then Some (map (\<lambda>x. f x (hd ys)) xs)
      else if length xs = 1 then Some (map (\<lambda>y. f (hd xs) y) ys)
      else None)"

text \<open>
  \<^verbatim>\<open>input\<close> is the network output, one row per example; the source reads its columns
  0 (the predicted mean) and 1 (the predicted log variance), so a row is the pair of the
  two. \<^verbatim>\<open>target\<close> is the target after \<^verbatim>\<open>view(-1, 1)\<close>, a column.
\<close>

definition nll :: "(real \<times> real) list \<Rightarrow> real list \<Rightarrow> error + real" where
  "nll input target =
     (let batch_size = length input;
          prediction_mean = map fst input;
          log_prediction_variance = map snd input;
          prediction_variance_inverse =
            map (\<lambda>l. 1 / (exp l + 1 / 10 ^ 16)) log_prediction_variance
      in case broadcast2 (\<lambda>y m. (y - m)\<^sup>2) target prediction_mean of
           None \<Rightarrow> Inl RuntimeError
         | Some mean_squared_error \<Rightarrow>
             (case broadcast2 (\<lambda>e v. - e * (0.5 * v)) mean_squared_error
                     prediction_variance_inverse of
                None \<Rightarrow> Inl RuntimeError
              | Some weighted \<Rightarrow>
                  (case broadcast2 (\<lambda>w l. w - 0.5 * l) weighted log_prediction_variance of
                     None \<Rightarrow> Inl RuntimeError
                   | Some terms \<Rightarrow>
                       if batch_size = 0 then Inl NotANumber
                       else Inr (- (sum_list terms / real batch_size)))))"

section \<open>Normalization (\<^verbatim>\<open>pybnn.util.normalization\<close>)\<close>

text \<open>numpy's mean and standard deviation of a vector, and a column of a matrix.\<close>

definition np_mean :: "real list \<Rightarrow> real" where
  "np_mean xs = sum_list xs / real (length xs)"

definition np_std :: "real list \<Rightarrow> real" where
  "np_std xs = sqrt (np_mean (map (\<lambda>x. (x - np_mean xs)\<^sup>2) xs))"

definition column :: "nat \<Rightarrow> real list list \<Rightarrow> real list" where
  "column j rs = map (\<lambda>r. r ! j) rs"

text \<open>
  numpy's broadcasting of a two-dimensional array of c columns against a vector of
  length d: equal lengths go column by column, a length of one is repeated, and any
  other pair raises \<^verbatim>\<open>ValueError\<close>.
\<close>

definition broadcast_cols :: "(real \<Rightarrow> real \<Rightarrow> real) \<Rightarrow> ndarray \<Rightarrow> real list \<Rightarrow> error + ndarray" where
  "broadcast_cols f X v =
     (let c = ncols X; d = length v in
      if c = d then Inr (X\<lparr>rows := map (\<lambda>r. map2 f r v) (rows X)\<rparr>)
      else if d = 1 then Inr (X\<lparr>rows := map (map (\<lambda>a. f a (hd v))) (rows X)\<rparr>)
      else if c = 1 then Inr \<lparr>ncols = d, rows = map (\<lambda>r. map (f (hd r)) v) (rows X)\<rparr>
      else Inl ValueError)"

text \<open>
  Modelled from the spec: \<^verbatim>\<open>zero_mean_unit_var_normalization\<close> is imported from
  \<^verbatim>\<open>pybnn.util.normalization\<close>, which is not among the sources. The spec (4.1) gives
  its contract: \<open>normalize data\<close> returns \<open>(data - mean) / std\<close> together with the mean
  and the (population) standard deviation of each column. A standard deviation of zero
  is a numerical degeneracy the spec leaves unguarded; the real model has no infinities
  for it. This is the call of line 199, on the two-dimensional training inputs.
\<close>

definition zero_mean_unit_var_normalization :: "ndarray \<Rightarrow> ndarray \<times> real list \<times> real list" where
  "zero_mean_unit_var_normalization X =
     (let mean = map (\<lambda>j. np_mean (column j (rows X))) [0..<ncols X];
          std = map (\<lambda>j. np_std (column j (rows X))) [0..<ncols X]
      in (X\<lparr>rows := map (\<lambda>r. map2 (/) (map2 (-) r mean) std) (rows X)\<rparr>, mean, std))"

text \<open>
  Modelled from the spec: the same function on the one-dimensional targets (line 205),
  where the mean and the standard deviation are numbers.
\<close>

definition zero_mean_unit_var_normalization_1d :: "real list \<Rightarrow> real list \<times> real \<times> real" where
  "zero_mean_unit_var_normalization_1d y =
     (let mean = np_mean y; std = np_std y
      in (map (\<lambda>v. (v - mean) / std) y, mean, std))"

text \<open>
  Modelled from the spec: the same function with the statistics given (line 269, on the
  test inputs): \<open>(data - mean) / std\<close> with the stored mean and standard deviation.
\<close>

definition zero_mean_unit_var_normalization_with ::
    "ndarray \<Rightarrow> real list \<Rightarrow> real list \<Rightarrow> error + ndarray" where
  "zero_mean_unit_var_normalization_with X mean std =
     (case broadcast_cols (-) X mean of
        Inl e \<Rightarrow> Inl e
      | Inr Y \<Rightarrow> broadcast_cols (/) Y std)"

text \<open>
  Modelled from the spec: \<^verbatim>\<open>zero_mean_unit_var_unnormalization\<close>, imported from the
  same module; by the spec (4.1) \<open>unnormalize data mean std\<close> is \<open>data * std + mean\<close>.
  It is applied to every element of its array argument.
\<close>

definition zero_mean_unit_var_unnormalization :: "real \<Rightarrow> real \<Rightarrow> real \<Rightarrow> real" where
  "zero_mean_unit_var_unnormalization x_normalized mean std = x_normalized * std + mean"

section \<open>The store of tensors\<close>

text \<open>
  Parameters are mutated in place and snapshots are arrays held by the trainer, so
  tensors live in an explicit store: a buffer per address, and the next free address.
  Allocation never reuses an address.
\<close>

type_synonym addr = nat

record heap =
  cells :: "addr \<Rightarrow> tensor"
  next_addr :: addr

definition alloc :: "tensor \<Rightarrow> heap \<Rightarrow> addr \<times> heap" where
  "alloc v h =
     (next_addr h, h\<lparr>cells := (cells h)(next_addr h := v), next_addr := Suc (next_addr h)\<rparr>)"

fun alloc_all :: "tensor list \<Rightarrow> heap \<Rightarrow> addr list \<times> heap" where
  "alloc_all [] h = ([], h)"
| "alloc_all (v # vs) h =
     (let (a, h1) = alloc v h; (as, h2) = alloc_all vs h1 in (a # as, h2))"

section \<open>External capabilities: the network factory and the sampler\<close>

text \<open>
  \<^verbatim>\<open>get_network(input_dimensionality)\<close> returns a torch module. What the trainer uses
  of it is its ordered parameter tensors and its forward pass, which maps the current
  parameter values and an input row to the pair (mean, log variance) (spec 4.3).
  An \<open>architecture\<close> is what the factory decides: the initial parameter values and the
  forward function. A \<open>module\<close> is the live object: its parameters are addresses.
\<close>

record architecture =
  initial_parameters :: "tensor list"
  forward_pass :: "tensor list \<Rightarrow> real list \<Rightarrow> real \<times> real"

record module =
  parameters :: "addr list"
  forward :: "tensor list \<Rightarrow> real list \<Rightarrow> real \<times> real"

definition instantiate :: "architecture \<Rightarrow> heap \<Rightarrow> module \<times> heap" where
  "instantiate a h =
     (let (ps, h1) = alloc_all (initial_parameters a) h
      in (\<lparr>parameters = ps, forward = forward_pass a\<rparr>, h1))"

text \<open>
  \<^verbatim>\<open>AdaptiveSGHMC\<close> (from \<^verbatim>\<open>pybnn.sampler.adaptive_sghmc\<close>, not among the sources) is
  taken as a parameter: a constructor, and a step that maps the sampler's own state,
  the loss as a function of the parameter values (what \<^verbatim>\<open>loss.backward()\<close> differentiates)
  and the current parameter values to the new state and the new parameter values,
  which \<^verbatim>\<open>sampler.step()\<close> writes into the parameter tensors in place (spec 4.4).
\<close>

record 's sampler =
  new_sampler :: "tensor list \<Rightarrow> nat \<Rightarrow> int \<Rightarrow> real \<Rightarrow> real \<Rightarrow> real \<Rightarrow> 's"
  sampler_step :: "'s \<Rightarrow> (tensor list \<Rightarrow> error + real) \<Rightarrow> tensor list \<Rightarrow> 's \<times> tensor list"

section \<open>The trainer: \<^verbatim>\<open>class Bohamiann\<close>\<close>

text \<open>
  The attributes of a \<^verbatim>\<open>Bohamiann\<close> object. An attribute that \<^verbatim>\<open>__init__\<close> does not
  set (\<^verbatim>\<open>x_mean\<close>, \<^verbatim>\<open>x_std\<close>, \<^verbatim>\<open>y_mean\<close>, \<^verbatim>\<open>y_std\<close>, \<^verbatim>\<open>model\<close>) is \<open>None\<close> until
  \<^verbatim>\<open>train\<close> assigns it; reading it before raises \<^verbatim>\<open>AttributeError\<close>. A snapshot
  (one element of \<^verbatim>\<open>sampled_weights\<close>) is a tuple of arrays, here their addresses.
  The attribute \<^verbatim>\<open>metrics\<close> is stored and never read; it is left out.
\<close>

record bohamiann =
  batch_size :: int
  normalize_input :: bool
  normalize_output :: bool
  get_network :: "nat \<Rightarrow> architecture"
  is_trained :: bool
  sampled_weights :: "addr list list"
  x_mean :: "real list option"
  x_std :: "real list option"
  y_mean :: "real option"
  y_std :: "real option"
  model :: "module option"

text \<open>
  \<^verbatim>\<open>__init__\<close> (lines 65-104): the assertion on the batch size comes first
  (assertions are taken as executed, as they are unless Python runs with \<^verbatim>\<open>-O\<close>).
\<close>

definition init :: "(nat \<Rightarrow> architecture) \<Rightarrow> int \<Rightarrow> bool \<Rightarrow> bool \<Rightarrow> error + bohamiann" where
  "init get_network' batch_size' normalize_input' normalize_output' =
     (if batch_size' \<ge> 1 then
        Inr \<lparr>batch_size = batch_size',
             normalize_input = normalize_input',
             normalize_output = normalize_output',
             get_network = get_network',
             is_trained = False,
             sampled_weights = [],
             x_mean = None, x_std = None, y_mean = None, y_std = None,
             model = None\<rparr>
      else Inl AssertionError)"

text \<open>
  The getter \<^verbatim>\<open>network_weights\<close> (lines 106-119): \<^verbatim>\<open>torch.tensor(parameter.data)\<close>
  copies the data of each parameter into a new tensor, whose buffer the numpy array
  then shares; the result is a tuple of new arrays.
\<close>

definition network_weights :: "heap \<Rightarrow> module \<Rightarrow> addr list \<times> heap" where
  "network_weights h m = alloc_all (map (cells h) (parameters m)) h"

text \<open>
  \<^verbatim>\<open>parameter.copy_(source)\<close> of torch overwrites the elements of the parameter and
  keeps its shape. The source is broadcast to the parameter's shape: it may have fewer
  dimensions, its shape is aligned with the end of the parameter's shape (filled with
  ones in front), and every dimension of it is the parameter's or 1; a dimension of 1 is
  repeated. Any other source raises \<^verbatim>\<open>RuntimeError\<close>. \<open>fits\<close> compares two shapes of
  the same number of dimensions, and \<open>expand\<close> repeats the buffer accordingly.
\<close>

fun fits :: "nat list \<Rightarrow> nat list \<Rightarrow> bool" where
  "fits [] [] = True"
| "fits (d # ds) (s # ss) = ((s = d \<or> s = 1) \<and> fits ds ss)"
| "fits ds ss = False"

fun expand :: "nat list \<Rightarrow> nat list \<Rightarrow> real list \<Rightarrow> real list" where
  "expand (d # ds) (s # ss) xs =
     (if s = d then
        concat (map (\<lambda>i. expand ds ss (take (prod_list ss) (drop (i * prod_list ss) xs)))
                  [0..<d])
      else concat (replicate d (expand ds ss xs)))"
| "expand ds ss xs = xs"

text \<open>
  A source of the parameter's own shape is copied as it is, which is what the general
  rule gives for it (lemma \<open>expand_same_shape\<close> below).
\<close>

definition tensor_copy :: "tensor \<Rightarrow> tensor \<Rightarrow> tensor option" where
  "tensor_copy dst src =
     (let padded = replicate (length (sizes dst) - length (sizes src)) 1 @ sizes src in
      if sizes src = sizes dst then Some src
      else if length (sizes src) \<le> length (sizes dst) \<and> fits (sizes dst) padded then
        Some \<lparr>sizes = sizes dst, elems = expand (sizes dst) padded (elems src)\<rparr>
      else None)"

text \<open>
  The setter (lines 121-149): \<^verbatim>\<open>parameter.copy_(torch.from_numpy(sample))\<close> for the
  pairs of \<^verbatim>\<open>zip(self.model.parameters(), weights)\<close>, in order; the shorter of the
  two sequences ends the loop.
\<close>

fun set_network_weights :: "addr list \<Rightarrow> addr list \<Rightarrow> heap \<Rightarrow> (error \<times> heap) + heap" where
  "set_network_weights (p # ps) (w # ws) h =
     (case tensor_copy (cells h p) (cells h w) of
        None \<Rightarrow> Inl (RuntimeError, h)
      | Some v \<Rightarrow> set_network_weights ps ws (h\<lparr>cells := (cells h)(p := v)\<rparr>))"
| "set_network_weights ps ws h = Inr h"

text \<open>
  \<^verbatim>\<open>sampler.step()\<close> updates the parameter tensors in place: the new values are
  written to the parameters' addresses, pair by pair.
\<close>

fun write_params :: "addr list \<Rightarrow> tensor list \<Rightarrow> heap \<Rightarrow> heap" where
  "write_params (p # ps) (v # vs) h = write_params ps vs (h\<lparr>cells := (cells h)(p := v)\<rparr>)"
| "write_params ps vs h = h"

subsection \<open>The stream of batches\<close>

text \<open>
  \<^verbatim>\<open>DataLoader(TensorDataset(x, y), batch_size=b)\<close> of torch, with its defaults (no
  shuffling, the last shorter batch kept): the rows in order, b at a time.
\<close>

definition DataLoader :: "nat \<Rightarrow> real list list \<Rightarrow> real list \<Rightarrow> (real list list \<times> real list) list" where
  "DataLoader b xs ys =
     map (\<lambda>k. (take b (drop (k * b) xs), take b (drop (k * b) ys)))
       [0..<(length xs + b - 1) div b]"

text \<open>
  Modelled from the spec: \<^verbatim>\<open>infinite_dataloader\<close> is imported from
  \<^verbatim>\<open>pybnn.util.infinite_dataloader\<close>, which is not among the sources. The spec (4.5,
  step 6, and the design notes) describes a finite-then-repeating stream: the batches of
  the loader in order, starting again when they are exhausted. \<open>infinite_dataloader l k\<close>
  is the batch that comes with index \<open>k\<close> out of \<^verbatim>\<open>enumerate\<close>; a loader with no batch
  never yields.
\<close>

definition infinite_dataloader :: "'a list \<Rightarrow> nat \<Rightarrow> 'a option" where
  "infinite_dataloader loader k =
     (if loader = [] then None else Some (loader ! (k mod length loader)))"

subsection \<open>\<^verbatim>\<open>train\<close> (lines 151-263)\<close>

text \<open>
  Lines 194-207. Without normalization the names \<^verbatim>\<open>x_train_\<close> and \<^verbatim>\<open>y_train_\<close>
  are read before any assignment.
\<close>

definition normalize_training_data ::
    "bohamiann \<Rightarrow> ndarray \<Rightarrow> real list \<Rightarrow> (error \<times> bohamiann) + (ndarray \<times> real list \<times> bohamiann)" where
  "normalize_training_data t x_train y_train =
     (if normalize_input t then
        (let (x_train', mean_x, std_x) = zero_mean_unit_var_normalization x_train;
             t1 = t\<lparr>x_mean := Some mean_x, x_std := Some std_x\<rparr>
         in if normalize_output t1 then
              (let (y_train', mean_y, std_y) = zero_mean_unit_var_normalization_1d y_train;
                   t2 = t1\<lparr>y_mean := Some mean_y, y_std := Some std_y\<rparr>
               in Inr (x_train', y_train', t2))
            else Inl (UnboundLocalError, t1))
      else Inl (UnboundLocalError, t))"

text \<open>
  The body of the loop (lines 227-261) at index \<open>step\<close>. The diagnostics under
  \<^verbatim>\<open>verbose\<close> only print and are left out. In the condition of line 256 the remainder
  is taken only when \<^verbatim>\<open>step > num_burn_in_steps\<close> holds (\<^verbatim>\<open>and\<close> evaluates its second
  operand only then), and a remainder by zero raises. Python's \<^verbatim>\<open>%\<close> on integers and
  \<open>mod\<close> on \<open>int\<close> agree: the result has the sign of the divisor.
\<close>

definition train_step ::
    "'s sampler \<Rightarrow> module \<Rightarrow> (nat \<Rightarrow> (real list list \<times> real list) option) \<Rightarrow> int \<Rightarrow> int \<Rightarrow> nat
      \<Rightarrow> 's \<times> heap \<times> bohamiann \<Rightarrow> (error \<times> heap \<times> bohamiann) + ('s \<times> heap \<times> bohamiann)" where
  "train_step smp m train_loader keep_every num_burn_in_steps step st =
     (case st of (s, h, t) \<Rightarrow>
       (case train_loader step of
          None \<Rightarrow> Inl (Hangs, h, t)
        | Some (x_batch, y_batch) \<Rightarrow>
            (let loss_of = (\<lambda>values. nll (map (forward m values) x_batch) y_batch)
             in case loss_of (map (cells h) (parameters m)) of
                  Inl e \<Rightarrow> Inl (e, h, t)
                | Inr loss \<Rightarrow>
                    (let (s1, new_values) =
                           sampler_step smp s loss_of (map (cells h) (parameters m));
                         h1 = write_params (parameters m) new_values h
                     in if int step > num_burn_in_steps then
                          if keep_every = 0 then Inl (ZeroDivisionError, h1, t)
                          else if (int step - num_burn_in_steps) mod keep_every = 0 then
                            (let (weights, h2) = network_weights h1 m
                             in Inr (s1, h2, t\<lparr>sampled_weights := sampled_weights t @ [weights]\<rparr>))
                          else Inr (s1, h1, t)
                        else Inr (s1, h1, t)))))"

fun train_loop ::
    "'s sampler \<Rightarrow> module \<Rightarrow> (nat \<Rightarrow> (real list list \<times> real list) option) \<Rightarrow> int \<Rightarrow> int \<Rightarrow> nat list
      \<Rightarrow> 's \<times> heap \<times> bohamiann \<Rightarrow> (error \<times> heap \<times> bohamiann) + ('s \<times> heap \<times> bohamiann)" where
  "train_loop smp m train_loader keep_every num_burn_in_steps [] st = Inr st"
| "train_loop smp m train_loader keep_every num_burn_in_steps (step # steps) st =
     (case train_step smp m train_loader keep_every num_burn_in_steps step st of
        Inl e \<Rightarrow> Inl e
      | Inr st' \<Rightarrow> train_loop smp m train_loader keep_every num_burn_in_steps steps st')"

text \<open>
  \<^verbatim>\<open>islice(iterable, num_steps)\<close> raises \<^verbatim>\<open>ValueError\<close> unless
  \<open>0 \<le> num_steps \<le> sys.maxsize\<close>; \<open>sys_maxsize\<close> is its value on a 64-bit CPython.
\<close>

definition sys_maxsize :: int where
  "sys_maxsize = 2 ^ 63 - 1"

text \<open>
  \<^verbatim>\<open>train\<close>. An exception leaves the trainer as it is at the raise, so a failure
  carries the store and the trainer of that moment. \<^verbatim>\<open>TensorDataset\<close> asserts that
  inputs and targets have the same number of rows, and \<^verbatim>\<open>DataLoader\<close> raises
  \<^verbatim>\<open>ValueError\<close> for a batch size that is not positive. The steps of the loop are the
  indices \<open>0, ..., num_steps - 1\<close> of \<^verbatim>\<open>islice(enumerate(train_loader), num_steps)\<close>.
\<close>

definition train ::
    "'s sampler \<Rightarrow> heap \<Rightarrow> bohamiann \<Rightarrow> ndarray \<Rightarrow> real list \<Rightarrow> int \<Rightarrow> int \<Rightarrow> int
      \<Rightarrow> real \<Rightarrow> real \<Rightarrow> real \<Rightarrow> (error \<times> heap \<times> bohamiann) + (heap \<times> bohamiann)" where
  "train smp h t x_train y_train num_steps keep_every num_burn_in_steps lr noise mdecay =
     (let t0 = t\<lparr>sampled_weights := []\<rparr>;
          (num_datapoints, input_dimensionality) = shape x_train
      in case normalize_training_data t0 x_train y_train of
           Inl (e, t1) \<Rightarrow> Inl (e, h, t1)
         | Inr (x_train', y_train', t2) \<Rightarrow>
             if length (rows x_train') \<noteq> length y_train' then Inl (AssertionError, h, t2)
             else if batch_size t2 < 1 then Inl (ValueError, h, t2)
             else
               (let train_loader =
                      infinite_dataloader
                        (DataLoader (nat (batch_size t2)) (rows x_train') y_train');
                    (m, h1) = instantiate (get_network t2 input_dimensionality) h;
                    t3 = t2\<lparr>model := Some m\<rparr>;
                    s0 = new_sampler smp (map (cells h1) (parameters m)) num_datapoints
                           num_burn_in_steps lr mdecay noise
                in if num_steps < 0 \<or> sys_maxsize < num_steps then Inl (ValueError, h1, t3)
                   else
                     (case train_loop smp m train_loader keep_every num_burn_in_steps
                             [0..<nat num_steps] (s0, h1, t3) of
                        Inl e \<Rightarrow> Inl e
                      | Inr (s', h', t') \<Rightarrow> Inr (h', t'\<lparr>is_trained := True\<rparr>))))"

subsection \<open>\<^verbatim>\<open>predict\<close> (lines 265-302)\<close>

text \<open>
  Lines 276-280: for every snapshot in order, \<^verbatim>\<open>network_predict\<close> assigns the snapshot
  to \<^verbatim>\<open>self.network_weights\<close> (the setter) and runs the forward pass on the rows.
\<close>

fun network_outputs ::
    "module \<Rightarrow> real list list \<Rightarrow> addr list list \<Rightarrow> heap
      \<Rightarrow> (error \<times> heap) + ((real \<times> real) list list \<times> heap)" where
  "network_outputs m x [] h = Inr ([], h)"
| "network_outputs m x (weights # rest) h =
     (case set_network_weights (parameters m) weights h of
        Inl e \<Rightarrow> Inl e
      | Inr h1 \<Rightarrow>
          (let out = map (forward m (map (cells h1) (parameters m))) x
           in case network_outputs m x rest h1 of
                Inl e \<Rightarrow> Inl e
              | Inr (outs, h2) \<Rightarrow> Inr (out # outs, h2)))"

text \<open>
  \<^verbatim>\<open>np.mean(a, axis=0)\<close> of an array of S rows, and lines 282-286: the mean of the
  mean column over the snapshots, and the total variance.
\<close>

definition np_mean_axis0 :: "real list list \<Rightarrow> real list" where
  "np_mean_axis0 a =
     (case a of [] \<Rightarrow> [] | r # _ \<Rightarrow> map (\<lambda>j. np_mean (column j a)) [0..<length r])"

definition mean_prediction :: "(real \<times> real) list list \<Rightarrow> real list" where
  "mean_prediction outs = np_mean_axis0 (map (map fst) outs)"

definition variance_prediction :: "(real \<times> real) list list \<Rightarrow> real list" where
  "variance_prediction outs =
     map2 (-) (np_mean_axis0 (map (map (\<lambda>(m, l). m\<^sup>2 + exp l)) outs))
       (map (\<lambda>m. m\<^sup>2) (mean_prediction outs))"

text \<open>
  \<^verbatim>\<open>predict\<close> returns the mean, the variance and, when asked, the mean column of every
  snapshot. Reading \<^verbatim>\<open>self.x_mean\<close>, \<^verbatim>\<open>self.model\<close> or \<^verbatim>\<open>self.y_mean\<close> before
  \<^verbatim>\<open>train\<close> has set it raises \<^verbatim>\<open>AttributeError\<close>; with no snapshot,
  \<^verbatim>\<open>np.array([])\<close> is one-dimensional and \<^verbatim>\<open>network_outputs[:, :, 0]\<close> raises
  \<^verbatim>\<open>IndexError\<close>. With output normalization, line 296 un-normalizes both columns of
  every snapshot's output before column 0 is returned.
\<close>

type_synonym prediction = "real list \<times> real list \<times> real list list option"

text \<open>Lines 266-269: the test inputs, normalized with the stored statistics.\<close>

definition normalize_test_input :: "bohamiann \<Rightarrow> ndarray \<Rightarrow> error + ndarray" where
  "normalize_test_input t x_test =
     (if normalize_input t then
        (case (x_mean t, x_std t) of
           (Some mean_x, Some std_x) \<Rightarrow>
             zero_mean_unit_var_normalization_with x_test mean_x std_x
         | _ \<Rightarrow> Inl AttributeError)
      else Inr x_test)"

text \<open>
  Lines 277-280: the list comprehension over \<^verbatim>\<open>self.sampled_weights\<close>; its body reads
  \<^verbatim>\<open>self.model\<close>, so a trainer with no snapshot never does.
\<close>

definition ensemble_outputs ::
    "heap \<Rightarrow> bohamiann \<Rightarrow> ndarray \<Rightarrow> (error \<times> heap) + ((real \<times> real) list list \<times> heap)" where
  "ensemble_outputs h t x_test' =
     (case sampled_weights t of
        [] \<Rightarrow> Inr ([], h)
      | _ # _ \<Rightarrow>
          (case model t of
             None \<Rightarrow> Inl (AttributeError, h)
           | Some m \<Rightarrow> network_outputs m (rows x_test') (sampled_weights t) h))"

text \<open>Lines 282-302: the moments, their un-normalization, and the returned tuple.\<close>

definition aggregate :: "bohamiann \<Rightarrow> (real \<times> real) list list \<Rightarrow> bool \<Rightarrow> error + prediction" where
  "aggregate t outs return_individual_predictions =
     (if outs = [] then Inl IndexError
      else if normalize_output t then
        (case (y_mean t, y_std t) of
           (Some mean_y, Some std_y) \<Rightarrow>
             Inr (map (\<lambda>m. zero_mean_unit_var_unnormalization m mean_y std_y)
                    (mean_prediction outs),
                  map (\<lambda>v. v * std_y\<^sup>2) (variance_prediction outs),
                  if return_individual_predictions then
                    Some (map (map (\<lambda>(m, l).
                      zero_mean_unit_var_unnormalization m mean_y std_y)) outs)
                  else None)
         | _ \<Rightarrow> Inl AttributeError)
      else
        Inr (mean_prediction outs, variance_prediction outs,
             if return_individual_predictions then Some (map (map fst) outs) else None))"

definition predict ::
    "heap \<Rightarrow> bohamiann \<Rightarrow> ndarray \<Rightarrow> bool
      \<Rightarrow> (error \<times> heap \<times> bohamiann) + (prediction \<times> heap \<times> bohamiann)" where
  "predict h t x_test return_individual_predictions =
     (case normalize_test_input t x_test of
        Inl e \<Rightarrow> Inl (e, h, t)
      | Inr x_test' \<Rightarrow>
          (case ensemble_outputs h t x_test' of
             Inl (e, h1) \<Rightarrow> Inl (e, h1, t)
           | Inr (outs, h1) \<Rightarrow>
               (case aggregate t outs return_individual_predictions of
                  Inl e \<Rightarrow> Inl (e, h1, t)
                | Inr r \<Rightarrow> Inr (r, h1, t))))"

subsection \<open>A trainer built and trained in one go\<close>

text \<open>
  \<^verbatim>\<open>Bohamiann(get_network, batch_size, ...).train(x_train, y_train, ...)\<close>: the
  constructor first, \<^verbatim>\<open>train\<close> on the object it returns. When the constructor raises
  there is no object, and \<^verbatim>\<open>train\<close> is not called.
\<close>

definition construct_and_train ::
    "'s sampler \<Rightarrow> heap \<Rightarrow> (nat \<Rightarrow> architecture) \<Rightarrow> int \<Rightarrow> bool \<Rightarrow> bool \<Rightarrow> ndarray \<Rightarrow> real list
      \<Rightarrow> int \<Rightarrow> int \<Rightarrow> int \<Rightarrow> real \<Rightarrow> real \<Rightarrow> real \<Rightarrow> (error \<times> heap) + (heap \<times> bohamiann)" where
  "construct_and_train smp h get_network' batch_size' normalize_input' normalize_output'
       x_train y_train num_steps keep_every num_burn_in_steps lr noise mdecay =
     (case init get_network' batch_size' normalize_input' normalize_output' of
        Inl e \<Rightarrow> Inl (e, h)
      | Inr t \<Rightarrow>
          (case train smp h t x_train y_train num_steps keep_every num_burn_in_steps
                  lr noise mdecay of
             Inl (e, h', t') \<Rightarrow> Inl (e, h')
           | Inr r \<Rightarrow> Inr r))"

section \<open>Reference notions for the properties\<close>

text \<open>
  The steps at which line 256 asks for a snapshot, among the first \<open>n\<close> indices.
\<close>

definition recording_steps :: "int \<Rightarrow> int \<Rightarrow> nat \<Rightarrow> nat list" where
  "recording_steps keep_every num_burn_in_steps n =
     filter (\<lambda>step. int step > num_burn_in_steps
                \<and> (int step - num_burn_in_steps) mod keep_every = 0) [0..<n]"

text \<open>
  The values of the parameters along the run, without any store: \<open>inplace old new\<close> is
  what the parameter tensors hold after the pairwise in-place write of \<open>new\<close>, and
  \<open>values_after \<dots> k\<close> is the sampler's state and the parameter values after \<open>k\<close> steps
  of the loop, from the values the network factory gave.
\<close>

definition inplace :: "tensor list \<Rightarrow> tensor list \<Rightarrow> tensor list" where
  "inplace old new = take (length old) new @ drop (length new) old"

primrec values_after ::
    "'s sampler \<Rightarrow> (tensor list \<Rightarrow> real list \<Rightarrow> real \<times> real)
      \<Rightarrow> (nat \<Rightarrow> (real list list \<times> real list) option) \<Rightarrow> 's \<times> tensor list \<Rightarrow> nat
      \<Rightarrow> 's \<times> tensor list" where
  "values_after smp f train_loader sv 0 = sv"
| "values_after smp f train_loader sv (Suc k) =
     (case train_loader k of
        None \<Rightarrow> values_after smp f train_loader sv k
      | Some (x_batch, y_batch) \<Rightarrow>
          (let (s, vs) = values_after smp f train_loader sv k;
               (s1, new_values) =
                 sampler_step smp s (\<lambda>values. nll (map (f values) x_batch) y_batch) vs
           in (s1, inplace vs new_values)))"

text \<open>
  For a call of \<^verbatim>\<open>train\<close>: the stream of batches it draws from (the normalized
  data, in batches of the trainer's batch size), and the values of the parameters after
  \<open>k\<close> steps of its loop, from the network of its factory and a new sampler.
\<close>

definition training_stream ::
    "bohamiann \<Rightarrow> ndarray \<Rightarrow> real list \<Rightarrow> nat \<Rightarrow> (real list list \<times> real list) option" where
  "training_stream t x_train y_train =
     infinite_dataloader
       (DataLoader (nat (batch_size t))
          (rows (fst (zero_mean_unit_var_normalization x_train)))
          (fst (zero_mean_unit_var_normalization_1d y_train)))"

definition parameters_after ::
    "'s sampler \<Rightarrow> bohamiann \<Rightarrow> ndarray \<Rightarrow> real list \<Rightarrow> int \<Rightarrow> real \<Rightarrow> real \<Rightarrow> real \<Rightarrow> nat
      \<Rightarrow> tensor list" where
  "parameters_after smp t x_train y_train num_burn_in_steps lr noise mdecay k =
     (let a = get_network t (ncols x_train)
      in snd (values_after smp (forward_pass a) (training_stream t x_train y_train)
                (new_sampler smp (initial_parameters a) (length (rows x_train))
                   num_burn_in_steps lr mdecay noise,
                 initial_parameters a) k))"

text \<open>
  A stream that yields, at every index, a batch of at least one row with as many
  targets as rows.
\<close>

definition good_loader :: "(nat \<Rightarrow> (real list list \<times> real list) option) \<Rightarrow> bool" where
  "good_loader train_loader =
     (\<forall>k. \<exists>x_batch y_batch. train_loader k = Some (x_batch, y_batch)
            \<and> length x_batch = length y_batch \<and> x_batch \<noteq> [])"

text \<open>
  What the parameters hold after the setter has assigned a snapshot to them: the array
  of the snapshot, broadcast to the shape of its parameter (where \<^verbatim>\<open>copy_\<close> raises
  there is no such value, and the array itself stands for it).
\<close>

definition restored_values :: "heap \<Rightarrow> addr list \<Rightarrow> addr list \<Rightarrow> tensor list" where
  "restored_values h ps w =
     map2 (\<lambda>p a. case tensor_copy (cells h p) (cells h a) of
                    None \<Rightarrow> cells h a
                  | Some v \<Rightarrow> v) ps w"

text \<open>
  The output of the network on a row of inputs once the setter has assigned the
  snapshot \<open>w\<close> to the parameters.
\<close>

definition snapshot_output :: "heap \<Rightarrow> module \<Rightarrow> addr list \<Rightarrow> real list \<Rightarrow> real \<times> real" where
  "snapshot_output h m w = forward m (restored_values h (parameters m) w)"

text \<open>
  Every array of every snapshot has the shape of the parameter it was copied from, and
  a sampler whose step keeps the shapes of the parameters (it updates them in place).
\<close>

definition same_shapes :: "heap \<Rightarrow> bohamiann \<Rightarrow> bool" where
  "same_shapes h t =
     (case model t of
        None \<Rightarrow> True
      | Some m \<Rightarrow>
          list_all (\<lambda>w. list_all2 (\<lambda>p a. sizes (cells h a) = sizes (cells h p))
                          (parameters m) w) (sampled_weights t))"

definition shape_preserving :: "'s sampler \<Rightarrow> bool" where
  "shape_preserving smp =
     (\<forall>s loss values. map sizes (snd (sampler_step smp s loss values)) = map sizes values)"

text \<open>
  The state \<^verbatim>\<open>train\<close> leaves and \<^verbatim>\<open>predict\<close> keeps: the parameters of the model are
  distinct tensors, and every snapshot has one array per parameter, none of them a
  parameter tensor. Before the first \<^verbatim>\<open>train\<close> there is no model and no snapshot.
\<close>

definition wf_state :: "bohamiann \<Rightarrow> bool" where
  "wf_state t =
     (case model t of
        None \<Rightarrow> sampled_weights t = []
      | Some m \<Rightarrow>
          distinct (parameters m)
          \<and> list_all (\<lambda>w. length w = length (parameters m)
                         \<and> list_all (\<lambda>a. a \<notin> set (parameters m)) w) (sampled_weights t))"

text \<open>
  The number of snapshots that the specification promises for \<open>S\<close> steps of which \<open>B\<close>
  are burn-in steps, with one snapshot every \<open>K\<close> steps: \<open>floor ((S - B - 1) / K) + 1\<close>
  when \<open>S > B\<close>, and 0 otherwise. This definition follows the words of the
  specification, not the source.
\<close>

definition claimed_snapshot_count :: "int \<Rightarrow> int \<Rightarrow> int \<Rightarrow> nat" where
  "claimed_snapshot_count S K B = (if S > B then nat ((S - B - 1) div K + 1) else 0)"

text \<open>The number of snapshots a call of \<^verbatim>\<open>train\<close> leaves, when it returns.\<close>

definition snapshot_count :: "(error \<times> heap \<times> bohamiann) + (heap \<times> bohamiann) \<Rightarrow> nat option" where
  "snapshot_count r =
     (case r of Inl e \<Rightarrow> None | Inr (h, t) \<Rightarrow> Some (length (sampled_weights t)))"

section \<open>Example inputs\<close>

text \<open>
  Concrete inputs for the examples below: \<open>vec xs\<close> is the one-dimensional tensor of
  the numbers \<open>xs\<close>; a network with one parameter tensor of one number that predicts
  this number as the mean and 0 as the log variance, a sampler whose step adds 1 to
  every parameter, an empty store, a trainer as \<^verbatim>\<open>__init__\<close> builds it with its
  default arguments, and two data points.
\<close>

definition vec :: "real list \<Rightarrow> tensor" where
  "vec xs = \<lparr>sizes = [length xs], elems = xs\<rparr>"

definition example_forward :: "tensor list \<Rightarrow> real list \<Rightarrow> real \<times> real" where
  "example_forward values row = (hd (elems (hd values)), 0)"

definition example_network :: "nat \<Rightarrow> architecture" where
  "example_network d =
     \<lparr>initial_parameters = [vec [0]], forward_pass = example_forward\<rparr>"

definition example_sampler :: "unit sampler" where
  "example_sampler =
     \<lparr>new_sampler = (\<lambda>values n b lr mdecay noise. ()),
      sampler_step =
        (\<lambda>s loss values. (s, map (\<lambda>v. v\<lparr>elems := map (\<lambda>e. e + 1) (elems v)\<rparr>) values))\<rparr>"

definition example_heap :: heap where
  "example_heap = \<lparr>cells = (\<lambda>a. vec []), next_addr = 0\<rparr>"

definition example_trainer :: bohamiann where
  "example_trainer =
     \<lparr>batch_size = 20, normalize_input = True, normalize_output = True,
      get_network = example_network, is_trained = False, sampled_weights = [],
      x_mean = None, x_std = None, y_mean = None, y_std = None, model = None\<rparr>"

definition example_x :: ndarray where
  "example_x = \<lparr>ncols = 1, rows = [[0], [1]]\<rparr>"

definition example_y :: "real list" where
  "example_y = [0, 1]"

text \<open>
  A trained state: the model's parameter tensor at address 0, two snapshots at the
  addresses 1 and 2 holding 1 and 3, and statistics of inputs and outputs.
\<close>

definition trained_heap :: heap where
  "trained_heap =
     \<lparr>cells = (\<lambda>a. vec [])(0 := vec [7], 1 := vec [1], 2 := vec [3]), next_addr = 3\<rparr>"

definition trained_trainer :: bohamiann where
  "trained_trainer =
     \<lparr>batch_size = 20, normalize_input = True, normalize_output = True,
      get_network = example_network, is_trained = True, sampled_weights = [[1], [2]],
      x_mean = Some [0], x_std = Some [1], y_mean = Some 10, y_std = Some 2,
      model = Some \<lparr>parameters = [0], forward = example_forward\<rparr>\<rparr>"



section \<open>The loss\<close>

text \<open>
  Claim C5. For a batch of \<open>n \<ge> 1\<close> network outputs (mean \<open>\<mu>\<close>, log variance \<open>l\<close>) and a
  target vector of the same size, \<^verbatim>\<open>nll\<close> returns the negative mean of the per-example
  Gaussian log likelihood \<open>- 0.5 (y - \<mu>)\<^sup>2 / (exp l + 1e-16) - 0.5 l\<close>.
\<close>

theorem nll_negative_mean_log_likelihood:
  assumes "length target = length input" and "input \<noteq> []"
  shows "nll input target =
    Inr (- (1 / real (length input)) *
      (\<Sum>i<length input. - 0.5 * (target ! i - fst (input ! i))\<^sup>2 *
          (1 / (exp (snd (input ! i)) + 1 / 10 ^ 16)) - 0.5 * snd (input ! i)))"
proof -
  let ?n = "length input"
  let ?f = "\<lambda>i. - 0.5 * (target ! i - fst (input ! i))\<^sup>2 *
          (1 / (exp (snd (input ! i)) + 1 / 10 ^ 16)) - 0.5 * snd (input ! i)"
  have "nll input target = Inr (- ((\<Sum>i<?n. ?f i) / real ?n))"
    using assms
    apply (simp add: nll_def broadcast2_def Let_def sum_list_sum_nth atLeast0LessThan)
    apply (rule sum.cong)
     apply (simp_all add: field_simps)
    done
  then show ?thesis by simp
qed

theorem nll_negative_mean_log_likelihood_witness:
  "nll [(1, 0), (2, 0)] [1, 3] = Inr (1 / (4 * (1 + 1 / 10 ^ 16)))"
  using nll_negative_mean_log_likelihood [of "[1, 3]" "[(1, 0), (2, 0)]"]
  by (simp add: lessThan_Suc)

section \<open>Construction\<close>

text \<open>
  Claim C8. \<^verbatim>\<open>__init__\<close> with a batch size below 1 raises \<^verbatim>\<open>AssertionError\<close>, so
  that constructing and training in one go fails there with the store of tensors
  untouched (no model is built, no step of the loop is taken); with a batch size of at
  least 1 it returns an untrained trainer with no snapshot.
\<close>

theorem init_batch_size_precondition:
  "(b < 1 \<longrightarrow>
      init g b ni no = Inl AssertionError
      \<and> construct_and_train smp h g b ni no x y S K B lr noise mdecay = Inl (AssertionError, h))
   \<and> (1 \<le> b \<longrightarrow>
      init g b ni no =
        Inr \<lparr>batch_size = b, normalize_input = ni, normalize_output = no, get_network = g,
             is_trained = False, sampled_weights = [], x_mean = None, x_std = None,
             y_mean = None, y_std = None, model = None\<rparr>)"
  by (simp add: init_def construct_and_train_def)

theorem init_batch_size_precondition_witness:
  "init example_network 0 True True = Inl AssertionError
   \<and> construct_and_train example_sampler example_heap example_network 0 True True
        example_x example_y 150 10 100 (1 / 100) 0 (1 / 20)
      = Inl (AssertionError, example_heap)
   \<and> init example_network 20 True True = Inr example_trainer"
  using init_batch_size_precondition
          [of 0 example_network True True example_sampler example_heap example_x example_y
              150 10 100 "1 / 100" 0 "1 / 20"]
        init_batch_size_precondition [of 20 example_network True True]
  by (simp add: example_trainer_def)

section \<open>The store of tensors: allocation, in-place writes, restoring\<close>

subsection \<open>Allocation\<close>

lemma alloc_all_addrs:
  "fst (alloc_all vs h) = [next_addr h..<next_addr h + length vs]"
proof (induction vs arbitrary: h)
  case Nil
  show ?case by simp
next
  case (Cons v vs)
  have "[next_addr h..<next_addr h + length (v # vs)]
          = next_addr h # [Suc (next_addr h)..<Suc (next_addr h) + length vs]"
    by (subst upt_rec) simp
  moreover have "next_addr (snd (alloc v h)) = Suc (next_addr h)" "fst (alloc v h) = next_addr h"
    by (simp_all add: alloc_def)
  ultimately show ?case
    using Cons.IH [of "snd (alloc v h)"] by (simp add: Let_def split_beta)
qed

lemma alloc_all_next:
  "next_addr (snd (alloc_all vs h)) = next_addr h + length vs"
  by (induction vs arbitrary: h) (simp_all add: alloc_def Let_def split_beta)

lemma alloc_all_old:
  "a < next_addr h \<Longrightarrow> cells (snd (alloc_all vs h)) a = cells h a"
  by (induction vs arbitrary: h) (simp_all add: alloc_def Let_def split_beta)

lemma alloc_all_contents:
  "map (cells (snd (alloc_all vs h))) (fst (alloc_all vs h)) = vs"
proof (induction vs arbitrary: h)
  case Nil
  show ?case by simp
next
  case (Cons v vs)
  let ?h1 = "snd (alloc v h)"
  have "cells (snd (alloc_all vs ?h1)) (next_addr h) = cells ?h1 (next_addr h)"
    by (rule alloc_all_old) (simp add: alloc_def)
  then show ?case
    using Cons.IH [of ?h1] by (simp add: Let_def split_beta) (simp add: alloc_def)
qed

subsection \<open>In-place writes\<close>

lemma write_params_next [simp]: "next_addr (write_params ps vs h) = next_addr h"
  by (induction ps vs h rule: write_params.induct) simp_all

lemma write_params_other:
  "a \<notin> set ps \<Longrightarrow> cells (write_params ps vs h) a = cells h a"
  by (induction ps vs h rule: write_params.induct) simp_all

lemma write_params_values:
  "distinct ps \<Longrightarrow> map (cells (write_params ps vs h)) ps = inplace (map (cells h) ps) vs"
proof (induction ps vs h rule: write_params.induct)
  case (1 p ps v vs h)
  let ?h1 = "h\<lparr>cells := (cells h)(p := v)\<rparr>"
  have a: "cells (write_params ps vs ?h1) p = v"
    using 1 by (simp add: write_params_other)
  have b: "map (cells ?h1) ps = map (cells h) ps"
    using 1 by simp
  have d: "distinct ps" using 1 by simp
  have "map (cells (write_params ps vs ?h1)) ps = inplace (map (cells ?h1) ps) vs"
    by (rule "1.IH" [OF d])
  then have "map (cells (write_params ps vs ?h1)) ps = inplace (map (cells h) ps) vs"
    by (simp only: b)
  then show ?case using a by (simp add: inplace_def)
qed (simp_all add: inplace_def)

subsection \<open>Copying with broadcasting\<close>

lemma concat_chunks:
  "length xs = d * n \<Longrightarrow> concat (map (\<lambda>i. take n (drop (i * n) xs)) [0..<d]) = xs"
proof (induction d arbitrary: xs)
  case 0
  then show ?case by simp
next
  case (Suc d)
  have l: "length (drop n xs) = d * n" using Suc.prems by simp
  have "[0..<Suc d] = 0 # map Suc [0..<d]"
    by (simp add: upt_conv_Cons map_Suc_upt del: upt_Suc)
  then have "concat (map (\<lambda>i. take n (drop (i * n) xs)) [0..<Suc d])
      = take n xs @ concat (map (\<lambda>i. take n (drop (i * n) (drop n xs))) [0..<d])"
    by (simp add: comp_def add.commute del: upt_Suc)
  also have "\<dots> = take n xs @ drop n xs"
    by (simp only: Suc.IH [OF l])
  finally show ?case by simp
qed

lemma expand_same_shape:
  "length xs = prod_list ds \<Longrightarrow> expand ds ds xs = xs"
proof (induction ds arbitrary: xs)
  case Nil
  then show ?case by simp
next
  case (Cons d ds)
  let ?n = "prod_list ds"
  have len: "length xs = d * ?n" using Cons.prems by simp
  have "map (\<lambda>i. expand ds ds (take ?n (drop (i * ?n) xs))) [0..<d]
      = map (\<lambda>i. take ?n (drop (i * ?n) xs)) [0..<d]"
  proof (rule map_cong [OF refl])
    fix i assume "i \<in> set [0..<d]"
    then have "Suc i \<le> d" by simp
    then have "Suc i * ?n \<le> d * ?n" by (rule mult_le_mono1)
    then have "length (take ?n (drop (i * ?n) xs)) = ?n" using len by simp
    then show "expand ds ds (take ?n (drop (i * ?n) xs)) = take ?n (drop (i * ?n) xs)"
      by (rule Cons.IH)
  qed
  then have "concat (map (\<lambda>i. expand ds ds (take ?n (drop (i * ?n) xs))) [0..<d])
      = concat (map (\<lambda>i. take ?n (drop (i * ?n) xs)) [0..<d])"
    by (rule arg_cong)
  also have "\<dots> = xs" by (rule concat_chunks [OF len])
  finally show ?case by simp
qed

lemma fits_same_shape: "fits ds ds"
  by (induction ds) simp_all

lemma tensor_copy_sizes: "tensor_copy d s = Some v \<Longrightarrow> sizes v = sizes d"
  by (auto simp: tensor_copy_def Let_def split: if_splits)

lemma tensor_copy_sizes_only: "sizes d = sizes d' \<Longrightarrow> tensor_copy d s = tensor_copy d' s"
  by (simp add: tensor_copy_def Let_def)

lemma tensor_copy_same_shape: "sizes s = sizes d \<Longrightarrow> tensor_copy d s = Some s"
  by (simp add: tensor_copy_def)

subsection \<open>The setter\<close>

lemma set_network_weights_next:
  "set_network_weights ps ws h = Inr h' \<Longrightarrow> next_addr h' = next_addr h"
  by (induction ps ws h rule: set_network_weights.induct) (simp_all split: option.splits)

lemma set_network_weights_other:
  "set_network_weights ps ws h = Inr h' \<Longrightarrow> a \<notin> set ps \<Longrightarrow> cells h' a = cells h a"
  by (induction ps ws h rule: set_network_weights.induct) (simp_all split: option.splits)

lemma set_network_weights_other_fail:
  "set_network_weights ps ws h = Inl (e, h') \<Longrightarrow> a \<notin> set ps \<Longrightarrow> cells h' a = cells h a"
  by (induction ps ws h rule: set_network_weights.induct) (auto split: option.splits)

lemma set_network_weights_error:
  "set_network_weights ps ws h = Inl (e, h') \<Longrightarrow> e = RuntimeError"
  by (induction ps ws h rule: set_network_weights.induct) (auto split: option.splits)

lemma set_network_weights_sizes:
  "set_network_weights ps ws h = Inr h' \<or> set_network_weights ps ws h = Inl (e, h')
     \<Longrightarrow> sizes (cells h' a) = sizes (cells h a)"
proof (induction ps ws h rule: set_network_weights.induct)
  case (1 p ps w ws h)
  show ?case
  proof (cases "tensor_copy (cells h p) (cells h w)")
    case None
    then show ?thesis using "1.prems" by simp
  next
    case (Some v)
    let ?h1 = "h\<lparr>cells := (cells h)(p := v)\<rparr>"
    have "set_network_weights ps ws ?h1 = Inr h' \<or> set_network_weights ps ws ?h1 = Inl (e, h')"
      using "1.prems" Some by simp
    then have "sizes (cells h' a) = sizes (cells ?h1 a)" by (rule "1.IH" [OF Some])
    then show ?thesis using tensor_copy_sizes [OF Some] by simp
  qed
qed simp_all

lemma restored_values_cong:
  assumes "\<And>p. p \<in> set ps \<Longrightarrow> sizes (cells h1 p) = sizes (cells h p)"
    and "\<And>a. a \<in> set w \<Longrightarrow> cells h1 a = cells h a"
  shows "restored_values h1 ps w = restored_values h ps w"
  unfolding restored_values_def
proof (rule map_cong [OF refl])
  fix pa assume pa: "pa \<in> set (zip ps w)"
  obtain p a where e: "pa = (p, a)" by (cases pa)
  have p: "p \<in> set ps" and a: "a \<in> set w"
    using pa e by (auto dest: set_zip_leftD set_zip_rightD)
  have c: "tensor_copy (cells h1 p) (cells h1 a) = tensor_copy (cells h p) (cells h a)"
    using tensor_copy_sizes_only [OF assms(1) [OF p], of "cells h a"] assms(2) [OF a] by simp
  show "(case pa of (p, a) \<Rightarrow>
           (case tensor_copy (cells h1 p) (cells h1 a) of None \<Rightarrow> cells h1 a | Some v \<Rightarrow> v))
      = (case pa of (p, a) \<Rightarrow>
           (case tensor_copy (cells h p) (cells h a) of None \<Rightarrow> cells h a | Some v \<Rightarrow> v))"
    unfolding e using c assms(2) [OF a] by (simp split: option.splits)
qed

lemma restored_values_same_shapes:
  "list_all2 (\<lambda>p a. sizes (cells h a) = sizes (cells h p)) ps w
     \<Longrightarrow> restored_values h ps w = map (cells h) w"
  by (induction ps w rule: list_all2_induct)
    (simp_all add: restored_values_def tensor_copy_same_shape)

lemma set_network_weights_values:
  "set_network_weights ps ws h = Inr h' \<Longrightarrow> distinct ps \<Longrightarrow> set ws \<inter> set ps = {}
    \<Longrightarrow> length ws = length ps \<Longrightarrow> map (cells h') ps = restored_values h ps ws"
proof (induction ps ws h rule: set_network_weights.induct)
  case (1 p ps w ws h)
  from "1.prems"(1) obtain v where
    c: "tensor_copy (cells h p) (cells h w) = Some v"
    and r: "set_network_weights ps ws (h\<lparr>cells := (cells h)(p := v)\<rparr>) = Inr h'"
    by (auto split: option.splits)
  let ?h1 = "h\<lparr>cells := (cells h)(p := v)\<rparr>"
  have pn: "p \<notin> set ps" "p \<notin> set ws" using "1.prems" by auto
  have p: "cells h' p = v"
    using set_network_weights_other [OF r pn(1)] by simp
  have "map (cells h') ps = restored_values ?h1 ps ws"
    using "1.prems" by (intro "1.IH" [OF c r]) auto
  also have "\<dots> = restored_values h ps ws"
  proof (rule restored_values_cong)
    fix q assume "q \<in> set ps"
    then show "sizes (cells ?h1 q) = sizes (cells h q)" using pn(1) by auto
  next
    fix a assume "a \<in> set ws"
    then show "cells ?h1 a = cells h a" using pn(2) by auto
  qed
  finally show ?case using p c by (simp add: restored_values_def)
qed (simp_all add: restored_values_def)

section \<open>Replaying the snapshots in \<^verbatim>\<open>predict\<close>\<close>

lemma network_outputs_frame:
  "network_outputs m x ws h = Inr (outs, h') \<Longrightarrow>
     next_addr h' = next_addr h \<and> length outs = length ws
     \<and> (\<forall>a. a \<notin> set (parameters m) \<longrightarrow> cells h' a = cells h a)"
proof (induction ws arbitrary: h outs)
  case Nil
  then show ?case by simp
next
  case (Cons w ws)
  from Cons.prems obtain h1 outs1 where
    r: "set_network_weights (parameters m) w h = Inr h1"
    and n: "network_outputs m x ws h1 = Inr (outs1, h')"
    and o: "outs = map (forward m (map (cells h1) (parameters m))) x # outs1"
    by (auto simp: Let_def split: sum.splits)
  show ?case
    using Cons.IH [OF n] set_network_weights_next [OF r] set_network_weights_other [OF r] o
    by simp
qed

lemma network_outputs_frame_fail:
  "network_outputs m x ws h = Inl (e, h') \<Longrightarrow>
     e = RuntimeError \<and> (\<forall>a. a \<notin> set (parameters m) \<longrightarrow> cells h' a = cells h a)"
proof (induction ws arbitrary: h)
  case Nil
  then show ?case by simp
next
  case (Cons w ws)
  show ?case
  proof (cases "set_network_weights (parameters m) w h")
    case (Inl a)
    then show ?thesis
      using Cons.prems set_network_weights_other_fail [of "parameters m" w h e h']
        set_network_weights_error [of "parameters m" w h e h']
      by auto
  next
    case (Inr h1)
    then have n: "network_outputs m x ws h1 = Inl (e, h')"
      using Cons.prems by (auto simp: Let_def split: sum.splits)
    show ?thesis
      using Cons.IH [OF n] set_network_weights_other [OF Inr] by simp
  qed
qed



lemma wf_state_model:
  "wf_state t \<Longrightarrow> sampled_weights t \<noteq> [] \<Longrightarrow>
    \<exists>m. model t = Some m \<and> distinct (parameters m)
      \<and> (\<forall>w\<in>set (sampled_weights t). length w = length (parameters m) \<and> set w \<inter> set (parameters m) = {})"
  by (auto simp: wf_state_def list_all_iff split: option.splits)

lemma predict_Inr_iff:
  "predict h t x flag = Inr (r, h', t') \<longleftrightarrow>
     (\<exists>x' outs. normalize_test_input t x = Inr x' \<and> ensemble_outputs h t x' = Inr (outs, h')
        \<and> aggregate t outs flag = Inr r \<and> t' = t)"
proof (cases "normalize_test_input t x")
  case (Inl e)
  then show ?thesis by (simp add: predict_def)
next
  case (Inr x')
  show ?thesis
  proof (cases "ensemble_outputs h t x'")
    case (Inl eh)
    then show ?thesis using Inr by (cases eh) (simp add: predict_def)
  next
    case o: (Inr oh)
    obtain outs h1 where oh: "oh = (outs, h1)" by (cases oh)
    show ?thesis
      using Inr o oh by (cases "aggregate t outs flag") (auto simp: predict_def)
  qed
qed

lemma normalize_test_input_error:
  "normalize_test_input t x = Inl e \<Longrightarrow> e = AttributeError \<or> e = ValueError"
  by (auto simp: normalize_test_input_def zero_mean_unit_var_normalization_with_def
      broadcast_cols_def Let_def split: if_splits option.splits sum.splits)

lemma normalize_test_input_normalize_output:
  "normalize_test_input (t\<lparr>normalize_output := b\<rparr>) x = normalize_test_input t x"
  by (simp add: normalize_test_input_def)

lemma ensemble_outputs_normalize_output:
  "ensemble_outputs h (t\<lparr>normalize_output := b\<rparr>) x = ensemble_outputs h t x"
  by (simp add: ensemble_outputs_def split: list.splits option.splits)

section \<open>The training loop\<close>

subsection \<open>The loss is defined on the batches of the loop\<close>

lemma nll_defined:
  "length target = length input \<Longrightarrow> input \<noteq> [] \<Longrightarrow> \<exists>l. nll input target = Inr l"
  by (simp add: nll_def broadcast2_def Let_def)

subsection \<open>Batches\<close>

lemma DataLoader_nth:
  assumes "k < length (DataLoader b xs ys)"
  shows "DataLoader b xs ys ! k = (take b (drop (k * b) xs), take b (drop (k * b) ys))"
  using assms by (simp add: DataLoader_def del: upt_Suc)

lemma DataLoader_batches:
  assumes "0 < b" and "length ys = length xs" and "k < length (DataLoader b xs ys)"
  shows "length (fst (DataLoader b xs ys ! k)) = length (snd (DataLoader b xs ys ! k))
       \<and> fst (DataLoader b xs ys ! k) \<noteq> []"
proof -
  have k: "k < (length xs + b - 1) div b" using assms(3) by (simp add: DataLoader_def)
  have "Suc k * b \<le> ((length xs + b - 1) div b) * b"
    using k by (intro mult_le_mono1) simp
  also have "\<dots> \<le> length xs + b - 1" by simp
  finally have "k * b < length xs" using assms(1) by simp
  then show ?thesis
    using assms(1,2) by (simp add: DataLoader_nth [OF assms(3)])
qed

lemma DataLoader_nonempty:
  assumes "0 < b" and "xs \<noteq> []"
  shows "DataLoader b xs ys \<noteq> []"
proof -
  have "b \<le> length xs + b - 1" using assms by (cases xs) simp_all
  then have "0 < (length xs + b - 1) div b" using assms(1) by (simp add: div_greater_zero_iff)
  then show ?thesis by (simp add: DataLoader_def)
qed

lemma infinite_dataloader_good:
  assumes "0 < b" and "length ys = length xs" and "xs \<noteq> []"
  shows "good_loader (infinite_dataloader (DataLoader b xs ys))"
  unfolding good_loader_def
proof
  fix k
  let ?l = "DataLoader b xs ys"
  have ne: "?l \<noteq> []" by (rule DataLoader_nonempty [OF assms(1,3)])
  then have i: "k mod length ?l < length ?l" by simp
  obtain xb yb where p: "?l ! (k mod length ?l) = (xb, yb)" by (cases "?l ! (k mod length ?l)")
  have "length xb = length yb \<and> xb \<noteq> []"
    using DataLoader_batches [OF assms(1,2) i] p by simp
  then show "\<exists>x_batch y_batch. infinite_dataloader ?l k = Some (x_batch, y_batch)
      \<and> length x_batch = length y_batch \<and> x_batch \<noteq> []"
    using ne p by (simp add: infinite_dataloader_def)
qed

subsection \<open>One step, and the invariant of the loop\<close>

lemma train_step_good:
  assumes L: "loader step = Some (xb, yb)" and len: "length xb = length yb" "xb \<noteq> []"
    and K: "K \<noteq> 0 \<or> int step \<le> B"
    and S: "sampler_step smp s (\<lambda>values. nll (map (forward m values) xb) yb)
               (map (cells h) (parameters m)) = (s1, new)"
  shows "train_step smp m loader K B step (s, h, t) =
     Inr (if B < int step \<and> (int step - B) mod K = 0
          then (s1, snd (network_weights (write_params (parameters m) new h) m),
                t\<lparr>sampled_weights := sampled_weights t
                     @ [fst (network_weights (write_params (parameters m) new h) m)]\<rparr>)
          else (s1, write_params (parameters m) new h, t))"
proof -
  obtain l where l: "nll (map (forward m (map (cells h) (parameters m))) xb) yb = Inr l"
    using nll_defined [of yb "map (forward m (map (cells h) (parameters m))) xb"] len by auto
  show ?thesis
    using L l S K by (auto simp: train_step_def Let_def split_beta)
qed

lemma train_loop_append:
  "train_loop smp m loader K B (xs @ ys) st =
     (case train_loop smp m loader K B xs st of
        Inl e \<Rightarrow> Inl e
      | Inr st' \<Rightarrow> train_loop smp m loader K B ys st')"
  by (induction xs arbitrary: st) (simp_all split: sum.splits)

lemma recording_steps_Suc:
  "recording_steps K B (Suc n) =
     recording_steps K B n @ (if B < int n \<and> (int n - B) mod K = 0 then [n] else [])"
  by (simp add: recording_steps_def)

lemma network_weights_props:
  assumes "network_weights h m = (w, h')"
  shows "w = [next_addr h..<next_addr h + length (parameters m)]"
    and "next_addr h' = next_addr h + length (parameters m)"
    and "\<And>a. a < next_addr h \<Longrightarrow> cells h' a = cells h a"
    and "map (cells h') w = map (cells h) (parameters m)"
proof -
  let ?vs = "map (cells h) (parameters m)"
  have w: "w = fst (alloc_all ?vs h)" and h': "h' = snd (alloc_all ?vs h)"
    using assms by (simp_all add: network_weights_def)
  show "w = [next_addr h..<next_addr h + length (parameters m)]"
    unfolding w by (simp add: alloc_all_addrs)
  show "next_addr h' = next_addr h + length (parameters m)"
    unfolding h' by (simp add: alloc_all_next)
  show "\<And>a. a < next_addr h \<Longrightarrow> cells h' a = cells h a"
    unfolding h' by (rule alloc_all_old)
  show "map (cells h') w = map (cells h) (parameters m)"
    unfolding w h' by (rule alloc_all_contents)
qed

lemma values_after_Suc:
  assumes "loader n = Some (xb, yb)" and "values_after smp f loader sv n = (s, vs)"
    and "sampler_step smp s (\<lambda>values. nll (map (f values) xb) yb) vs = (s1, new)"
  shows "values_after smp f loader sv (Suc n) = (s1, inplace vs new)"
  using assms by simp

lemma train_loop_run:
  assumes G: "good_loader loader" and KB: "K \<noteq> 0 \<or> int n \<le> B + 1"
    and D: "distinct (parameters m)" and P: "\<forall>p\<in>set (parameters m). p < next_addr h0"
  shows "\<exists>s h new.
      train_loop smp m loader K B [0..<n] (s0, h0, t0)
        = Inr (s, h, t0\<lparr>sampled_weights := sampled_weights t0 @ new\<rparr>)
      \<and> values_after smp (forward m) loader (s0, map (cells h0) (parameters m)) n
          = (s, map (cells h) (parameters m))
      \<and> next_addr h0 \<le> next_addr h
      \<and> (\<forall>a<next_addr h0. a \<notin> set (parameters m) \<longrightarrow> cells h a = cells h0 a)
      \<and> map (map (cells h)) new
          = map (\<lambda>step. snd (values_after smp (forward m) loader
                                (s0, map (cells h0) (parameters m)) (Suc step)))
              (recording_steps K B n)
      \<and> (\<forall>w\<in>set new. length w = length (parameters m)
                         \<and> (\<forall>a\<in>set w. next_addr h0 \<le> a \<and> a < next_addr h))"
  using KB
proof (induction n)
  case 0
  have "t0\<lparr>sampled_weights := sampled_weights t0 @ []\<rparr> = t0" by simp
  then show ?case
    by (intro exI [of _ s0] exI [of _ h0] exI [of _ "[]"]) (simp add: recording_steps_def)
next
  case (Suc n)
  let ?ps = "parameters m"
  let ?traj = "values_after smp (forward m) loader (s0, map (cells h0) ?ps)"
  have KBn: "K \<noteq> 0 \<or> int n \<le> B + 1" and Kn: "K \<noteq> 0 \<or> int n \<le> B"
    using Suc.prems by auto
  from Suc.IH [OF KBn] obtain s h new where
    run: "train_loop smp m loader K B [0..<n] (s0, h0, t0)
            = Inr (s, h, t0\<lparr>sampled_weights := sampled_weights t0 @ new\<rparr>)"
    and traj: "?traj n = (s, map (cells h) ?ps)"
    and nxt: "next_addr h0 \<le> next_addr h"
    and frame: "\<forall>a<next_addr h0. a \<notin> set ?ps \<longrightarrow> cells h a = cells h0 a"
    and cont: "map (map (cells h)) new = map (\<lambda>step. snd (?traj (Suc step))) (recording_steps K B n)"
    and addrs: "\<forall>w\<in>set new. length w = length ?ps \<and> (\<forall>a\<in>set w. next_addr h0 \<le> a \<and> a < next_addr h)"
    by blast
  from G obtain xb yb where L: "loader n = Some (xb, yb)" and len: "length xb = length yb" "xb \<noteq> []"
    unfolding good_loader_def by blast
  obtain s1 nv where S: "sampler_step smp s (\<lambda>values. nll (map (forward m values) xb) yb)
               (map (cells h) ?ps) = (s1, nv)"
    by (cases "sampler_step smp s (\<lambda>values. nll (map (forward m values) xb) yb) (map (cells h) ?ps)")
  let ?h1 = "write_params ?ps nv h"
  let ?t = "t0\<lparr>sampled_weights := sampled_weights t0 @ new\<rparr>"
  have step: "train_step smp m loader K B n (s, h, ?t) =
     Inr (if B < int n \<and> (int n - B) mod K = 0
          then (s1, snd (network_weights ?h1 m),
                ?t\<lparr>sampled_weights := sampled_weights ?t @ [fst (network_weights ?h1 m)]\<rparr>)
          else (s1, ?h1, ?t))"
    using L len Kn S by (rule train_step_good)
  have loop: "train_loop smp m loader K B [0..<Suc n] (s0, h0, t0)
                = train_step smp m loader K B n (s, h, ?t)"
    using run by (simp add: train_loop_append split: sum.splits)
  have v1: "map (cells ?h1) ?ps = inplace (map (cells h) ?ps) nv"
    by (rule write_params_values [OF D])
  have traj1: "?traj (Suc n) = (s1, map (cells ?h1) ?ps)"
    unfolding v1 using L traj S by (rule values_after_Suc)
  have snap_notin: "\<And>w a. w \<in> set new \<Longrightarrow> a \<in> set w \<Longrightarrow> a \<notin> set ?ps"
    using addrs P by fastforce
  have cont1: "map (map (cells ?h1)) new = map (map (cells h)) new"
    by (intro map_cong refl write_params_other snap_notin)
  have frame1: "\<forall>a<next_addr h0. a \<notin> set ?ps \<longrightarrow> cells ?h1 a = cells h0 a"
    using frame by (simp add: write_params_other)
  show ?case
  proof (cases "B < int n \<and> (int n - B) mod K = 0")
    case False
    have rs: "recording_steps K B (Suc n) = recording_steps K B n"
      using False by (simp add: recording_steps_Suc)
    have res: "train_loop smp m loader K B [0..<Suc n] (s0, h0, t0)
        = Inr (s1, ?h1, t0\<lparr>sampled_weights := sampled_weights t0 @ new\<rparr>)"
      by (simp only: loop step if_not_P [OF False])
    have addrs1: "\<forall>x\<in>set new. length x = length ?ps
                         \<and> (\<forall>a\<in>set x. next_addr h0 \<le> a \<and> a < next_addr ?h1)"
      using addrs by simp
    show ?thesis
      apply (intro exI [of _ s1] exI [of _ ?h1] exI [of _ new])
      apply (intro conjI)
           apply (rule res)
          apply (rule traj1)
         apply (simp add: nxt)
        apply (rule frame1)
       apply (simp only: rs cont1 cont)
      apply (rule addrs1)
      done
  next
    case True
    obtain w h2 where nw: "network_weights ?h1 m = (w, h2)"
      by (cases "network_weights ?h1 m")
    note np = network_weights_props [OF nw]
    have rs: "recording_steps K B (Suc n) = recording_steps K B n @ [n]"
      using True by (simp add: recording_steps_Suc)
    have ps_old: "\<And>p. p \<in> set ?ps \<Longrightarrow> p < next_addr ?h1"
      using P nxt by fastforce
    have v2: "map (cells h2) ?ps = map (cells ?h1) ?ps"
      by (intro map_cong refl np(3) ps_old)
    have cont2: "map (map (cells h2)) new = map (map (cells ?h1)) new"
    proof (intro map_cong refl np(3))
      fix x a assume "x \<in> set new" "a \<in> set x"
      then show "a < next_addr ?h1" using addrs by simp
    qed
    have w_cont: "map (cells h2) w = snd (?traj (Suc n))"
      using np(4) traj1 by simp
    have frame2: "\<forall>a<next_addr h0. a \<notin> set ?ps \<longrightarrow> cells h2 a = cells h0 a"
      using frame1 np(3) nxt by simp
    have addrs2: "\<forall>x\<in>set (new @ [w]). length x = length ?ps
                         \<and> (\<forall>a\<in>set x. next_addr h0 \<le> a \<and> a < next_addr h2)"
      using addrs nxt np(1,2) by (auto simp: trans_less_add1)
    have "train_loop smp m loader K B [0..<Suc n] (s0, h0, t0)
        = Inr (s1, snd (network_weights ?h1 m),
                ?t\<lparr>sampled_weights := sampled_weights ?t @ [fst (network_weights ?h1 m)]\<rparr>)"
      by (simp only: loop step if_P [OF True])
    then have res: "train_loop smp m loader K B [0..<Suc n] (s0, h0, t0)
        = Inr (s1, h2, t0\<lparr>sampled_weights := sampled_weights t0 @ (new @ [w])\<rparr>)"
      by (simp add: nw)
    show ?thesis
      apply (intro exI [of _ s1] exI [of _ h2] exI [of _ "new @ [w]"])
      apply (intro conjI)
           apply (rule res)
          apply (simp only: traj1 v2)
         apply (simp add: np(2) nxt trans_le_add1)
        apply (rule frame2)
       apply (simp only: rs map_append cont2 cont1 cont w_cont list.map)
      apply (rule addrs2)
      done
  qed
qed

subsection \<open>Counting the recording steps\<close>

lemma div_step:
  fixes m K :: int
  assumes "1 \<le> K" and "1 \<le> m"
  shows "m div K = (m - 1) div K + (if m mod K = 0 then 1 else 0)"
proof -
  define q r where "q = m div K" and "r = m mod K"
  have m: "m = K * q + r" and r: "0 \<le> r" "r < K"
    using assms(1) by (simp_all add: q_def r_def)
  show ?thesis
  proof (cases "r = 0")
    case True
    have e: "m - 1 = K * (q - 1) + (K - 1)" using m True by (simp add: algebra_simps)
    have "(m - 1) div K = q - 1"
      by (rule int_div_pos_eq [OF e]) (use assms(1) in auto)
    then show ?thesis using True by (simp add: q_def r_def)
  next
    case False
    have e: "m - 1 = K * q + (r - 1)" using m by simp
    have "(m - 1) div K = q"
      by (rule int_div_pos_eq [OF e]) (use r False in auto)
    then show ?thesis using False by (simp add: q_def r_def)
  qed
qed

lemma length_recording_steps:
  assumes "0 \<le> B" and "1 \<le> K"
  shows "length (recording_steps K B n) = (if B < int n then nat ((int n - B - 1) div K) else 0)"
proof (induction n)
  case 0
  then show ?case using assms by (simp add: recording_steps_def)
next
  case (Suc n)
  show ?case
  proof (cases "B < int n")
    case True
    have d: "(int n - B) div K = (int n - B - 1) div K + (if (int n - B) mod K = 0 then 1 else 0)"
      using div_step [of K "int n - B"] assms True by simp
    have nn: "0 \<le> (int n - B - 1) div K"
      using True assms by (simp add: pos_imp_zdiv_nonneg_iff)
    have "length (recording_steps K B (Suc n))
            = nat ((int n - B - 1) div K) + (if (int n - B) mod K = 0 then 1 else 0)"
      using Suc True by (simp add: recording_steps_def)
    also have "\<dots> = nat ((int n - B) div K)"
      using d nn by (simp add: nat_add_distrib)
    finally show ?thesis using True by (simp add: algebra_simps)
  next
    case False
    then have "int n - B \<le> 0" by simp
    then have "(int (Suc n) - B - 1) div K = 0 \<or> \<not> B < int (Suc n)"
      using False assms by (cases "int n = B") (simp_all)
    then show ?thesis
      using Suc False by (auto simp: recording_steps_def)
  qed
qed

subsection \<open>From \<^verbatim>\<open>train\<close> to its loop\<close>

lemma normalize_training_data_on:
  assumes "normalize_input t" and "normalize_output t"
  shows "normalize_training_data t x y =
     Inr (fst (zero_mean_unit_var_normalization x), fst (zero_mean_unit_var_normalization_1d y),
          t\<lparr>x_mean := Some (fst (snd (zero_mean_unit_var_normalization x))),
            x_std := Some (snd (snd (zero_mean_unit_var_normalization x))),
            y_mean := Some (fst (snd (zero_mean_unit_var_normalization_1d y))),
            y_std := Some (snd (snd (zero_mean_unit_var_normalization_1d y)))\<rparr>)"
  using assms by (simp add: normalize_training_data_def Let_def split_beta)

lemma normalize_training_data_off:
  "\<not> normalize_input t \<Longrightarrow> normalize_training_data t x y = Inl (UnboundLocalError, t)"
  "normalize_input t \<Longrightarrow> \<not> normalize_output t \<Longrightarrow>
     normalize_training_data t x y =
       Inl (UnboundLocalError,
            t\<lparr>x_mean := Some (fst (snd (zero_mean_unit_var_normalization x))),
              x_std := Some (snd (snd (zero_mean_unit_var_normalization x)))\<rparr>)"
  by (simp_all add: normalize_training_data_def Let_def split_beta)

lemma length_rows_normalization:
  "length (rows (fst (zero_mean_unit_var_normalization x))) = length (rows x)"
  by (simp add: zero_mean_unit_var_normalization_def Let_def)

lemma length_normalization_1d:
  "length (fst (zero_mean_unit_var_normalization_1d y)) = length y"
  by (simp add: zero_mean_unit_var_normalization_1d_def Let_def)

lemma instantiate_props:
  assumes "instantiate a h = (m, h1)"
  shows "parameters m = [next_addr h..<next_addr h + length (initial_parameters a)]"
    and "forward m = forward_pass a"
    and "map (cells h1) (parameters m) = initial_parameters a"
    and "next_addr h1 = next_addr h + length (initial_parameters a)"
    and "\<And>b. b < next_addr h \<Longrightarrow> cells h1 b = cells h b"
proof -
  have m: "m = \<lparr>parameters = fst (alloc_all (initial_parameters a) h), forward = forward_pass a\<rparr>"
    and h1: "h1 = snd (alloc_all (initial_parameters a) h)"
    using assms by (simp_all add: instantiate_def split_beta)
  show "parameters m = [next_addr h..<next_addr h + length (initial_parameters a)]"
    unfolding m by (simp add: alloc_all_addrs)
  show "forward m = forward_pass a" unfolding m by simp
  show "map (cells h1) (parameters m) = initial_parameters a"
    unfolding m h1 by (simp add: alloc_all_contents)
  show "next_addr h1 = next_addr h + length (initial_parameters a)"
    unfolding h1 by (rule alloc_all_next)
  show "\<And>b. b < next_addr h \<Longrightarrow> cells h1 b = cells h b"
    unfolding h1 by (rule alloc_all_old)
qed

lemma train_reaches_loop:
  assumes ni: "normalize_input t" and no: "normalize_output t" and bs: "1 \<le> batch_size t"
    and ly: "length y = length (rows x)" and S: "0 \<le> S" "S \<le> sys_maxsize"
    and I: "instantiate (get_network t (ncols x)) h = (m, h1)"
  shows "train smp h t x y S K B lr noise mdecay =
     (case train_loop smp m (training_stream t x y) K B [0..<nat S]
             (new_sampler smp (initial_parameters (get_network t (ncols x))) (length (rows x))
                B lr mdecay noise,
              h1,
              t\<lparr>sampled_weights := [],
                x_mean := Some (fst (snd (zero_mean_unit_var_normalization x))),
                x_std := Some (snd (snd (zero_mean_unit_var_normalization x))),
                y_mean := Some (fst (snd (zero_mean_unit_var_normalization_1d y))),
                y_std := Some (snd (snd (zero_mean_unit_var_normalization_1d y))),
                model := Some m\<rparr>) of
        Inl e \<Rightarrow> Inl e
      | Inr (s', h', t') \<Rightarrow> Inr (h', t'\<lparr>is_trained := True\<rparr>))"
proof -
  have n: "normalize_training_data (t\<lparr>sampled_weights := []\<rparr>) x y =
     Inr (fst (zero_mean_unit_var_normalization x), fst (zero_mean_unit_var_normalization_1d y),
          t\<lparr>sampled_weights := [],
            x_mean := Some (fst (snd (zero_mean_unit_var_normalization x))),
            x_std := Some (snd (snd (zero_mean_unit_var_normalization x))),
            y_mean := Some (fst (snd (zero_mean_unit_var_normalization_1d y))),
            y_std := Some (snd (snd (zero_mean_unit_var_normalization_1d y)))\<rparr>)"
    using ni no by (subst normalize_training_data_on) simp_all
  show ?thesis
    unfolding train_def
    using bs ly S I instantiate_props(3) [OF I]
    by (simp add: n shape_def Let_def length_rows_normalization length_normalization_1d
        training_stream_def)
qed

lemma training_stream_good:
  assumes "1 \<le> batch_size t" and "length y = length (rows x)" and "rows x \<noteq> []"
  shows "good_loader (training_stream t x y)"
  unfolding training_stream_def
proof (rule infinite_dataloader_good)
  show "0 < nat (batch_size t)" using assms(1) by simp
  show "length (fst (zero_mean_unit_var_normalization_1d y))
          = length (rows (fst (zero_mean_unit_var_normalization x)))"
    using assms(2) by (simp add: length_rows_normalization length_normalization_1d)
  show "rows (fst (zero_mean_unit_var_normalization x)) \<noteq> []"
    using assms(3) length_rows_normalization [of x] by (metis length_0_conv)
qed

lemma train_run:
  assumes ni: "normalize_input t" and no: "normalize_output t" and bs: "1 \<le> batch_size t"
    and ne: "rows x \<noteq> []" and ly: "length y = length (rows x)"
    and S: "0 \<le> S" "S \<le> sys_maxsize" and K: "K \<noteq> 0 \<or> S \<le> B + 1"
  shows "\<exists>h' t' m.
      train smp h t x y S K B lr noise mdecay = Inr (h', t')
      \<and> is_trained t' \<and> model t' = Some m
      \<and> parameters m = [next_addr h..<next_addr h + length (initial_parameters (get_network t (ncols x)))]
      \<and> forward m = forward_pass (get_network t (ncols x))
      \<and> map (cells h') (parameters m) = parameters_after smp t x y B lr noise mdecay (nat S)
      \<and> map (map (cells h')) (sampled_weights t')
          = map (\<lambda>step. parameters_after smp t x y B lr noise mdecay (Suc step))
              (recording_steps K B (nat S))
      \<and> (\<forall>w\<in>set (sampled_weights t'). length w = length (parameters m)
            \<and> (\<forall>a\<in>set w. next_addr h + length (parameters m) \<le> a \<and> a < next_addr h'))
      \<and> (\<forall>a<next_addr h. cells h' a = cells h a)
      \<and> x_mean t' = Some (fst (snd (zero_mean_unit_var_normalization x)))
      \<and> x_std t' = Some (snd (snd (zero_mean_unit_var_normalization x)))
      \<and> y_mean t' = Some (fst (snd (zero_mean_unit_var_normalization_1d y)))
      \<and> y_std t' = Some (snd (snd (zero_mean_unit_var_normalization_1d y)))
      \<and> batch_size t' = batch_size t \<and> normalize_input t' \<and> normalize_output t'
      \<and> get_network t' = get_network t"
proof -
  let ?a = "get_network t (ncols x)"
  obtain m h1 where I: "instantiate ?a h = (m, h1)" by (cases "instantiate ?a h")
  note ip = instantiate_props [OF I]
  let ?s0 = "new_sampler smp (initial_parameters ?a) (length (rows x)) B lr mdecay noise"
  let ?t3 = "t\<lparr>sampled_weights := [],
                x_mean := Some (fst (snd (zero_mean_unit_var_normalization x))),
                x_std := Some (snd (snd (zero_mean_unit_var_normalization x))),
                y_mean := Some (fst (snd (zero_mean_unit_var_normalization_1d y))),
                y_std := Some (snd (snd (zero_mean_unit_var_normalization_1d y))),
                model := Some m\<rparr>"
  let ?loader = "training_stream t x y"
  have G: "good_loader ?loader" by (rule training_stream_good [OF bs ly ne])
  have KB: "K \<noteq> 0 \<or> int (nat S) \<le> B + 1" using K S(1) by simp
  have D: "distinct (parameters m)" unfolding ip(1) by simp
  have P: "\<forall>p\<in>set (parameters m). p < next_addr h1" unfolding ip(1) ip(4) by simp
  from train_loop_run [OF G KB D P, of smp ?s0 ?t3]
  obtain s h' new where
    run: "train_loop smp m ?loader K B [0..<nat S] (?s0, h1, ?t3)
            = Inr (s, h', ?t3\<lparr>sampled_weights := sampled_weights ?t3 @ new\<rparr>)"
    and traj: "values_after smp (forward m) ?loader (?s0, map (cells h1) (parameters m)) (nat S)
          = (s, map (cells h') (parameters m))"
    and nxt: "next_addr h1 \<le> next_addr h'"
    and frame: "\<forall>a<next_addr h1. a \<notin> set (parameters m) \<longrightarrow> cells h' a = cells h1 a"
    and cont: "map (map (cells h')) new
          = map (\<lambda>step. snd (values_after smp (forward m) ?loader
                                (?s0, map (cells h1) (parameters m)) (Suc step)))
              (recording_steps K B (nat S))"
    and addrs: "\<forall>w\<in>set new. length w = length (parameters m)
                         \<and> (\<forall>a\<in>set w. next_addr h1 \<le> a \<and> a < next_addr h')"
    by blast
  let ?t' = "?t3\<lparr>sampled_weights := sampled_weights ?t3 @ new, is_trained := True\<rparr>"
  have tr: "train smp h t x y S K B lr noise mdecay = Inr (h', ?t')"
    by (simp only: train_reaches_loop [OF ni no bs ly S I] run sum.case prod.case)
  have pa: "\<And>k. parameters_after smp t x y B lr noise mdecay k
        = snd (values_after smp (forward m) ?loader (?s0, map (cells h1) (parameters m)) k)"
    by (simp add: parameters_after_def Let_def ip(2) ip(3))
  have old: "\<forall>a<next_addr h. cells h' a = cells h a"
  proof (intro allI impI)
    fix a assume a: "a < next_addr h"
    then have "a \<notin> set (parameters m)" unfolding ip(1) by simp
    moreover have "a < next_addr h1" using a ip(4) by simp
    ultimately have "cells h' a = cells h1 a" using frame by simp
    then show "cells h' a = cells h a" using ip(5) [OF a] by simp
  qed
  have len: "length (parameters m) = length (initial_parameters ?a)" unfolding ip(1) by simp
  show ?thesis
    apply (intro exI [of _ h'] exI [of _ ?t'] exI [of _ m])
    apply (intro conjI)
                    apply (rule tr)
                   apply simp
                  apply simp
                 apply (rule ip(1))
                apply (rule ip(2))
               apply (simp add: pa traj)
              apply (simp add: pa cont)
             using addrs ip(4) len apply simp
            apply (rule old)
           using ni no apply simp_all
    done
qed

subsection \<open>A failed call leaves no snapshot\<close>

lemma train_step_Inl_trainer:
  "train_step smp m loader K B step (s, h, t) = Inl (e, h', t') \<Longrightarrow> t' = t"
  by (auto simp: train_step_def Let_def split_beta split: option.splits sum.splits if_splits)

lemma train_step_zero_keep_every:
  "train_step smp m loader 0 B step (s, h, t) = Inr (s', h', t') \<Longrightarrow> t' = t"
  by (auto simp: train_step_def Let_def split_beta split: option.splits sum.splits if_splits)

lemma train_loop_zero_keep_every:
  "train_loop smp m loader 0 B steps (s, h, t) = Inl (e, h', t') \<Longrightarrow> t' = t"
proof (induction steps arbitrary: s h)
  case Nil
  then show ?case by simp
next
  case (Cons step steps)
  show ?case
  proof (cases "train_step smp m loader 0 B step (s, h, t)")
    case (Inl a)
    then show ?thesis using Cons.prems train_step_Inl_trainer [of smp m loader 0 B step s h t e h' t']
      by simp
  next
    case (Inr st)
    obtain s1 h1 t1 where st: "st = (s1, h1, t1)" by (cases st)
    have "t1 = t"
      using Inr st train_step_zero_keep_every [of smp m loader B step s h t s1 h1 t1] by simp
    then show ?thesis using Cons.prems Inr st Cons.IH [of s1 h1] by simp
  qed
qed

lemma train_loop_no_batch:
  assumes "loader 0 = None"
  shows "train_loop smp m loader K B [0..<n] (s, h, t) = Inl (e, h', t') \<Longrightarrow> t' = t"
proof (cases n)
  case 0
  assume "train_loop smp m loader K B [0..<n] (s, h, t) = Inl (e, h', t')"
  then show ?thesis using 0 by simp
next
  case (Suc k)
  assume a: "train_loop smp m loader K B [0..<n] (s, h, t) = Inl (e, h', t')"
  have "[0..<n] = 0 # [1..<n]" using Suc by (simp add: upt_rec)
  then show ?thesis using a assms by (simp add: train_step_def)
qed

lemma train_failure_no_snapshot:
  assumes "train smp h t x y S K B lr noise mdecay = Inl (e, h', t')"
  shows "sampled_weights t' = []"
proof (cases "normalize_input t \<and> normalize_output t")
  case False
  then show ?thesis
    using assms
    by (cases "normalize_input t")
      (auto simp: train_def shape_def normalize_training_data_def Let_def split_beta)
next
  case True
  then have ni: "normalize_input t" and no: "normalize_output t" by simp_all
  let ?x' = "fst (zero_mean_unit_var_normalization x)"
  let ?y' = "fst (zero_mean_unit_var_normalization_1d y)"
  let ?t2 = "t\<lparr>sampled_weights := [],
            x_mean := Some (fst (snd (zero_mean_unit_var_normalization x))),
            x_std := Some (snd (snd (zero_mean_unit_var_normalization x))),
            y_mean := Some (fst (snd (zero_mean_unit_var_normalization_1d y))),
            y_std := Some (snd (snd (zero_mean_unit_var_normalization_1d y)))\<rparr>"
  have n: "normalize_training_data (t\<lparr>sampled_weights := []\<rparr>) x y = Inr (?x', ?y', ?t2)"
    using ni no by (subst normalize_training_data_on) simp_all
  obtain m h1 where I: "instantiate (get_network t (ncols x)) h = (m, h1)"
    by (cases "instantiate (get_network t (ncols x)) h")
  note ip = instantiate_props [OF I]
  let ?t3 = "?t2\<lparr>model := Some m\<rparr>"
  show ?thesis
  proof (cases "length y = length (rows x) \<and> 1 \<le> batch_size t \<and> 0 \<le> S \<and> S \<le> sys_maxsize")
    case False
    then show ?thesis
      using assms I
      by (auto simp: train_def shape_def n Let_def length_rows_normalization
          length_normalization_1d split: if_splits)
  next
    case True
    then have ly: "length y = length (rows x)" and bs: "1 \<le> batch_size t"
      and S: "0 \<le> S" "S \<le> sys_maxsize" by simp_all
    let ?s0 = "new_sampler smp (initial_parameters (get_network t (ncols x))) (length (rows x))
                B lr mdecay noise"
    from assms have loop: "train_loop smp m (training_stream t x y) K B [0..<nat S] (?s0, h1, ?t3)
        = Inl (e, h', t')"
      unfolding train_reaches_loop [OF ni no bs ly S I]
      by (auto split: sum.splits)
    have "t' = ?t3"
    proof (cases "rows x = []")
      case True
      have "0 < nat (batch_size t)" using bs by simp
      then have "(nat (batch_size t) - Suc 0) div nat (batch_size t) = 0" by simp
      with True have "training_stream t x y 0 = None"
        by (simp add: training_stream_def infinite_dataloader_def DataLoader_def
            length_rows_normalization)
      then show ?thesis using loop by (rule train_loop_no_batch)
    next
      case False
      have G: "good_loader (training_stream t x y)" by (rule training_stream_good [OF bs ly False])
      have D: "distinct (parameters m)" unfolding ip(1) by simp
      have P: "\<forall>p\<in>set (parameters m). p < next_addr h1" unfolding ip(1) ip(4) by simp
      have "K = 0"
      proof (rule ccontr)
        assume "K \<noteq> 0"
        then have "K \<noteq> 0 \<or> int (nat S) \<le> B + 1" by simp
        from train_loop_run [OF G this D P, of smp ?s0 ?t3] loop show False by auto
      qed
      then show ?thesis
        using loop train_loop_zero_keep_every [of smp m "training_stream t x y" B "[0..<nat S]"
            ?s0 h1 ?t3 e h' t'] by simp
    qed
    then show ?thesis by simp
  qed
qed

subsection \<open>The state a returning call leaves\<close>

lemma train_step_keeps_wf:
  assumes "train_step smp m loader K B step (s, h, t) = Inr (s', h', t')"
    and "\<forall>p\<in>set (parameters m). p < next_addr h"
    and "\<forall>w\<in>set (sampled_weights t). length w = length (parameters m)
            \<and> set w \<inter> set (parameters m) = {}"
  shows "model t' = model t \<and> (\<forall>p\<in>set (parameters m). p < next_addr h')
       \<and> (\<forall>w\<in>set (sampled_weights t'). length w = length (parameters m)
            \<and> set w \<inter> set (parameters m) = {})"
proof -
  from assms(1) obtain xb yb where L: "loader step = Some (xb, yb)"
    by (auto simp: train_step_def split: option.splits)
  define nv where "nv = snd (sampler_step smp s (\<lambda>values. nll (map (forward m values) xb) yb)
               (map (cells h) (parameters m)))"
  let ?h1 = "write_params (parameters m) nv h"
  obtain w h2 where nw: "network_weights ?h1 m = (w, h2)" by (cases "network_weights ?h1 m")
  note np = network_weights_props [OF nw]
  from assms(1) L have r: "(h' = ?h1 \<and> t' = t)
      \<or> (h' = h2 \<and> t' = t\<lparr>sampled_weights := sampled_weights t @ [w]\<rparr>)"
    using nw
    by (auto simp: train_step_def Let_def split_beta nv_def split: sum.splits if_splits)
  have wps: "set w \<inter> set (parameters m) = {}"
    using assms(2) unfolding np(1) by auto
  have wl: "length w = length (parameters m)" unfolding np(1) by simp
  from r show ?thesis
  proof
    assume "h' = ?h1 \<and> t' = t"
    then show ?thesis using assms(2,3) by simp
  next
    assume a: "h' = h2 \<and> t' = t\<lparr>sampled_weights := sampled_weights t @ [w]\<rparr>"
    have "\<forall>p\<in>set (parameters m). p < next_addr h2"
      using assms(2) np(2) by (simp add: trans_less_add1)
    then show ?thesis using a assms(3) wps wl by auto
  qed
qed

lemma train_loop_keeps_wf:
  assumes "train_loop smp m loader K B steps (s, h, t) = Inr (s', h', t')"
    and "\<forall>p\<in>set (parameters m). p < next_addr h"
    and "\<forall>w\<in>set (sampled_weights t). length w = length (parameters m)
            \<and> set w \<inter> set (parameters m) = {}"
  shows "model t' = model t
       \<and> (\<forall>w\<in>set (sampled_weights t'). length w = length (parameters m)
            \<and> set w \<inter> set (parameters m) = {})"
  using assms
proof (induction steps arbitrary: s h t)
  case Nil
  then show ?case by simp
next
  case (Cons step steps)
  from Cons.prems(1) obtain s1 h1 t1 where
    st: "train_step smp m loader K B step (s, h, t) = Inr (s1, h1, t1)"
    and lp: "train_loop smp m loader K B steps (s1, h1, t1) = Inr (s', h', t')"
    by (auto split: sum.splits)
  from train_step_keeps_wf [OF st Cons.prems(2,3)]
  have m: "model t1 = model t" and p: "\<forall>p\<in>set (parameters m). p < next_addr h1"
    and w: "\<forall>w\<in>set (sampled_weights t1). length w = length (parameters m)
            \<and> set w \<inter> set (parameters m) = {}"
    by simp_all
  from Cons.IH [OF lp p w] m show ?case by simp
qed

lemma train_Inr_preconditions:
  assumes "train smp h t x y S K B lr noise mdecay = Inr (h', t')"
  shows "normalize_input t \<and> normalize_output t \<and> 1 \<le> batch_size t
       \<and> length y = length (rows x) \<and> 0 \<le> S \<and> S \<le> sys_maxsize"
proof -
  have ni: "normalize_input t" and no: "normalize_output t"
    using assms
    by (auto simp: train_def shape_def normalize_training_data_def Let_def split_beta
        split: if_splits)
  let ?t2 = "t\<lparr>sampled_weights := [],
            x_mean := Some (fst (snd (zero_mean_unit_var_normalization x))),
            x_std := Some (snd (snd (zero_mean_unit_var_normalization x))),
            y_mean := Some (fst (snd (zero_mean_unit_var_normalization_1d y))),
            y_std := Some (snd (snd (zero_mean_unit_var_normalization_1d y)))\<rparr>"
  have n: "normalize_training_data (t\<lparr>sampled_weights := []\<rparr>) x y
      = Inr (fst (zero_mean_unit_var_normalization x),
             fst (zero_mean_unit_var_normalization_1d y), ?t2)"
    using ni no by (subst normalize_training_data_on) simp_all
  show ?thesis
    using assms ni no
    by (auto simp: train_def shape_def n Let_def split_beta length_rows_normalization
        length_normalization_1d split: if_splits)
qed

lemma train_establishes_wf_state:
  assumes "train smp h t x y S K B lr noise mdecay = Inr (h', t')"
  shows "wf_state t'"
proof -
  from train_Inr_preconditions [OF assms]
  have ni: "normalize_input t" and no: "normalize_output t" and bs: "1 \<le> batch_size t"
    and ly: "length y = length (rows x)" and S: "0 \<le> S" "S \<le> sys_maxsize"
    by simp_all
  obtain m h1 where I: "instantiate (get_network t (ncols x)) h = (m, h1)"
    by (cases "instantiate (get_network t (ncols x)) h")
  note ip = instantiate_props [OF I]
  let ?s0 = "new_sampler smp (initial_parameters (get_network t (ncols x))) (length (rows x))
                B lr mdecay noise"
  let ?t3 = "t\<lparr>sampled_weights := [],
                x_mean := Some (fst (snd (zero_mean_unit_var_normalization x))),
                x_std := Some (snd (snd (zero_mean_unit_var_normalization x))),
                y_mean := Some (fst (snd (zero_mean_unit_var_normalization_1d y))),
                y_std := Some (snd (snd (zero_mean_unit_var_normalization_1d y))),
                model := Some m\<rparr>"
  from assms obtain s' t'' where
    loop: "train_loop smp m (training_stream t x y) K B [0..<nat S] (?s0, h1, ?t3)
             = Inr (s', h', t'')"
    and t': "t' = t''\<lparr>is_trained := True\<rparr>"
    unfolding train_reaches_loop [OF ni no bs ly S I]
    by (auto split: sum.splits)
  have P: "\<forall>p\<in>set (parameters m). p < next_addr h1" unfolding ip(1) ip(4) by simp
  have W: "\<forall>w\<in>set (sampled_weights ?t3). length w = length (parameters m)
            \<and> set w \<inter> set (parameters m) = {}" by simp
  from train_loop_keeps_wf [OF loop P W]
  have "model t'' = Some m" and "\<forall>w\<in>set (sampled_weights t''). length w = length (parameters m)
            \<and> set w \<inter> set (parameters m) = {}" by simp_all
  moreover have "distinct (parameters m)" unfolding ip(1) by simp
  ultimately show ?thesis
    unfolding t' wf_state_def by (auto simp: list_all_iff)
qed

subsection \<open>The shapes of the snapshots\<close>

lemma train_step_keeps_shapes:
  assumes st: "train_step smp m loader K B step (s, h, t) = Inr (s', h', t')"
    and sp: "shape_preserving smp" and D: "distinct (parameters m)"
    and P: "\<forall>p\<in>set (parameters m). p < next_addr h"
    and W: "\<forall>w\<in>set (sampled_weights t).
              (\<forall>a\<in>set w. a < next_addr h \<and> a \<notin> set (parameters m))
              \<and> list_all2 (\<lambda>p a. sizes (cells h a) = sizes (cells h p)) (parameters m) w"
  shows "(\<forall>p\<in>set (parameters m). p < next_addr h')
       \<and> (\<forall>w\<in>set (sampled_weights t').
              (\<forall>a\<in>set w. a < next_addr h' \<and> a \<notin> set (parameters m))
              \<and> list_all2 (\<lambda>p a. sizes (cells h' a) = sizes (cells h' p)) (parameters m) w)"
proof -
  let ?ps = "parameters m"
  from st obtain xb yb where L: "loader step = Some (xb, yb)"
    by (auto simp: train_step_def split: option.splits)
  define nv where "nv = snd (sampler_step smp s (\<lambda>values. nll (map (forward m values) xb) yb)
               (map (cells h) ?ps))"
  let ?h1 = "write_params ?ps nv h"
  obtain w h2 where nw: "network_weights ?h1 m = (w, h2)" by (cases "network_weights ?h1 m")
  note np = network_weights_props [OF nw]
  from st L have r: "(h' = ?h1 \<and> t' = t)
      \<or> (h' = h2 \<and> t' = t\<lparr>sampled_weights := sampled_weights t @ [w]\<rparr>)"
    using nw
    by (auto simp: train_step_def Let_def split_beta nv_def split: sum.splits if_splits)
  have ms: "map sizes nv = map sizes (map (cells h) ?ps)"
    using sp by (simp add: shape_preserving_def nv_def)
  then have "length (map sizes nv) = length (map sizes (map (cells h) ?ps))" by (rule arg_cong)
  then have ln: "length nv = length ?ps" by simp
  have v1: "map (cells ?h1) ?ps = nv"
    using write_params_values [OF D, of nv h] ln by (simp add: inplace_def)
  have "map sizes (map (cells ?h1) ?ps) = map sizes (map (cells h) ?ps)"
    by (simp only: v1 ms)
  then have s1: "\<And>p. p \<in> set ?ps \<Longrightarrow> sizes (cells ?h1 p) = sizes (cells h p)"
    by simp
  have o1: "\<And>a. a \<notin> set ?ps \<Longrightarrow> cells ?h1 a = cells h a"
    by (rule write_params_other)
  have W1: "\<forall>w\<in>set (sampled_weights t).
              (\<forall>a\<in>set w. a < next_addr ?h1 \<and> a \<notin> set ?ps)
              \<and> list_all2 (\<lambda>p a. sizes (cells ?h1 a) = sizes (cells ?h1 p)) ?ps w"
  proof
    fix w0 assume w0: "w0 \<in> set (sampled_weights t)"
    then have a0: "\<forall>a\<in>set w0. a < next_addr h \<and> a \<notin> set ?ps"
      and l0: "list_all2 (\<lambda>p a. sizes (cells h a) = sizes (cells h p)) ?ps w0"
      using W by simp_all
    from l0 have "list_all2 (\<lambda>p a. sizes (cells ?h1 a) = sizes (cells ?h1 p)) ?ps w0"
    proof (rule list.rel_mono_strong)
      fix p a assume "p \<in> set ?ps" "a \<in> set w0" "sizes (cells h a) = sizes (cells h p)"
      then show "sizes (cells ?h1 a) = sizes (cells ?h1 p)"
        using a0 s1 [of p] o1 [of a] by simp
    qed
    then show "(\<forall>a\<in>set w0. a < next_addr ?h1 \<and> a \<notin> set ?ps)
        \<and> list_all2 (\<lambda>p a. sizes (cells ?h1 a) = sizes (cells ?h1 p)) ?ps w0"
      using a0 by simp
  qed
  from r show ?thesis
  proof
    assume "h' = ?h1 \<and> t' = t"
    then show ?thesis using P W1 by simp
  next
    assume a: "h' = h2 \<and> t' = t\<lparr>sampled_weights := sampled_weights t @ [w]\<rparr>"
    have P1: "\<forall>p\<in>set ?ps. p < next_addr ?h1" using P by simp
    have P2: "\<forall>p\<in>set ?ps. p < next_addr h2"
      using P np(2) by (simp add: trans_less_add1)
    have c2: "\<And>p. p \<in> set ?ps \<Longrightarrow> cells h2 p = cells ?h1 p"
      using P1 np(3) by simp
    have old: "\<forall>w0\<in>set (sampled_weights t).
              (\<forall>a\<in>set w0. a < next_addr h2 \<and> a \<notin> set ?ps)
              \<and> list_all2 (\<lambda>p a. sizes (cells h2 a) = sizes (cells h2 p)) ?ps w0"
    proof
      fix w0 assume w0: "w0 \<in> set (sampled_weights t)"
      then have a0: "\<forall>a\<in>set w0. a < next_addr ?h1 \<and> a \<notin> set ?ps"
        and l0: "list_all2 (\<lambda>p a. sizes (cells ?h1 a) = sizes (cells ?h1 p)) ?ps w0"
        using W1 by simp_all
      from l0 have "list_all2 (\<lambda>p a. sizes (cells h2 a) = sizes (cells h2 p)) ?ps w0"
      proof (rule list.rel_mono_strong)
        fix p a assume "p \<in> set ?ps" "a \<in> set w0"
          "sizes (cells ?h1 a) = sizes (cells ?h1 p)"
        then show "sizes (cells h2 a) = sizes (cells h2 p)"
          using a0 c2 [of p] np(3) [of a] by simp
      qed
      moreover have "\<forall>a\<in>set w0. a < next_addr h2 \<and> a \<notin> set ?ps"
        using a0 np(2) by (simp add: trans_less_add1)
      ultimately show "(\<forall>a\<in>set w0. a < next_addr h2 \<and> a \<notin> set ?ps)
        \<and> list_all2 (\<lambda>p a. sizes (cells h2 a) = sizes (cells h2 p)) ?ps w0"
        by simp
    qed
    have wa: "\<forall>a\<in>set w. a < next_addr h2 \<and> a \<notin> set ?ps"
      using P1 unfolding np(1) np(2) by auto
    have "map (cells h2) ?ps = map (cells ?h1) ?ps"
      by (rule map_cong [OF refl]) (rule c2)
    then have "map (cells h2) ?ps = map (cells h2) w" using np(4) by simp
    then have "list_all2 (=) (map (cells h2) ?ps) (map (cells h2) w)"
      by (simp add: list.rel_eq)
    then have "list_all2 (\<lambda>p a. cells h2 p = cells h2 a) ?ps w"
      by (simp add: list_all2_map1 list_all2_map2)
    then have "list_all2 (\<lambda>p a. sizes (cells h2 a) = sizes (cells h2 p)) ?ps w"
      by (rule list_all2_mono) simp
    then show ?thesis using a P2 old wa by auto
  qed
qed

lemma train_loop_keeps_shapes:
  assumes "train_loop smp m loader K B steps (s, h, t) = Inr (s', h', t')"
    and "shape_preserving smp" and "distinct (parameters m)"
    and "\<forall>p\<in>set (parameters m). p < next_addr h"
    and "\<forall>w\<in>set (sampled_weights t).
              (\<forall>a\<in>set w. a < next_addr h \<and> a \<notin> set (parameters m))
              \<and> list_all2 (\<lambda>p a. sizes (cells h a) = sizes (cells h p)) (parameters m) w"
  shows "\<forall>w\<in>set (sampled_weights t').
              list_all2 (\<lambda>p a. sizes (cells h' a) = sizes (cells h' p)) (parameters m) w"
  using assms
proof (induction steps arbitrary: s h t)
  case Nil
  then show ?case by simp
next
  case (Cons step steps)
  from Cons.prems(1) obtain s1 h1 t1 where
    st: "train_step smp m loader K B step (s, h, t) = Inr (s1, h1, t1)"
    and lp: "train_loop smp m loader K B steps (s1, h1, t1) = Inr (s', h', t')"
    by (auto split: sum.splits)
  from train_step_keeps_shapes [OF st Cons.prems(2-5)]
  have p: "\<forall>p\<in>set (parameters m). p < next_addr h1"
    and w: "\<forall>w\<in>set (sampled_weights t1).
              (\<forall>a\<in>set w. a < next_addr h1 \<and> a \<notin> set (parameters m))
              \<and> list_all2 (\<lambda>p a. sizes (cells h1 a) = sizes (cells h1 p)) (parameters m) w"
    by simp_all
  show ?case by (rule Cons.IH [OF lp Cons.prems(2,3) p w])
qed

lemma train_establishes_same_shapes:
  assumes "train smp h t x y S K B lr noise mdecay = Inr (h', t')" and "shape_preserving smp"
  shows "same_shapes h' t'"
proof -
  from train_Inr_preconditions [OF assms(1)]
  have ni: "normalize_input t" and no: "normalize_output t" and bs: "1 \<le> batch_size t"
    and ly: "length y = length (rows x)" and S: "0 \<le> S" "S \<le> sys_maxsize"
    by simp_all
  obtain m h1 where I: "instantiate (get_network t (ncols x)) h = (m, h1)"
    by (cases "instantiate (get_network t (ncols x)) h")
  note ip = instantiate_props [OF I]
  let ?s0 = "new_sampler smp (initial_parameters (get_network t (ncols x))) (length (rows x))
                B lr mdecay noise"
  let ?t3 = "t\<lparr>sampled_weights := [],
                x_mean := Some (fst (snd (zero_mean_unit_var_normalization x))),
                x_std := Some (snd (snd (zero_mean_unit_var_normalization x))),
                y_mean := Some (fst (snd (zero_mean_unit_var_normalization_1d y))),
                y_std := Some (snd (snd (zero_mean_unit_var_normalization_1d y))),
                model := Some m\<rparr>"
  from assms(1) obtain s' t'' where
    loop: "train_loop smp m (training_stream t x y) K B [0..<nat S] (?s0, h1, ?t3)
             = Inr (s', h', t'')"
    and t': "t' = t''\<lparr>is_trained := True\<rparr>"
    unfolding train_reaches_loop [OF ni no bs ly S I]
    by (auto split: sum.splits)
  have P: "\<forall>p\<in>set (parameters m). p < next_addr h1" unfolding ip(1) ip(4) by simp
  have D: "distinct (parameters m)" unfolding ip(1) by simp
  have W0: "\<forall>w\<in>set (sampled_weights ?t3). length w = length (parameters m)
            \<and> set w \<inter> set (parameters m) = {}" by simp
  have W: "\<forall>w\<in>set (sampled_weights ?t3).
              (\<forall>a\<in>set w. a < next_addr h1 \<and> a \<notin> set (parameters m))
              \<and> list_all2 (\<lambda>p a. sizes (cells h1 a) = sizes (cells h1 p)) (parameters m) w"
    by simp
  from train_loop_keeps_wf [OF loop P W0] have m: "model t'' = Some m" by simp
  from train_loop_keeps_shapes [OF loop assms(2) D P W]
  have "\<forall>w\<in>set (sampled_weights t'').
          list_all2 (\<lambda>p a. sizes (cells h' a) = sizes (cells h' p)) (parameters m) w" .
  then show ?thesis
    unfolding t' same_shapes_def using m by (simp add: list_all_iff)
qed

lemma same_shapes_restored_values:
  assumes "same_shapes h t" and "model t = Some m" and "w \<in> set (sampled_weights t)"
  shows "restored_values h (parameters m) w = map (cells h) w"
proof (rule restored_values_same_shapes)
  show "list_all2 (\<lambda>p a. sizes (cells h a) = sizes (cells h p)) (parameters m) w"
    using assms by (simp add: same_shapes_def list_all_iff)
qed

subsection \<open>\<^verbatim>\<open>predict\<close> writes the parameter tensors only\<close>

lemma ensemble_outputs_frame:
  assumes "ensemble_outputs h t x' = Inr (outs, h') \<or> ensemble_outputs h t x' = Inl (e, h')"
    and "\<forall>m. model t = Some m \<longrightarrow> a \<notin> set (parameters m)"
  shows "cells h' a = cells h a"
proof (cases "sampled_weights t")
  case Nil
  then show ?thesis using assms(1) by (auto simp: ensemble_outputs_def)
next
  case (Cons w ws)
  show ?thesis
  proof (cases "model t")
    case None
    then show ?thesis using assms(1) Cons by (auto simp: ensemble_outputs_def)
  next
    case (Some m)
    then have a: "a \<notin> set (parameters m)" using assms(2) by simp
    have "network_outputs m (rows x') (sampled_weights t) h = Inr (outs, h')
        \<or> network_outputs m (rows x') (sampled_weights t) h = Inl (e, h')"
      using assms(1) Cons Some by (simp add: ensemble_outputs_def)
    then show ?thesis
      using network_outputs_frame [of m "rows x'" "sampled_weights t" h outs h']
        network_outputs_frame_fail [of m "rows x'" "sampled_weights t" h e h'] a
      by blast
  qed
qed

lemma predict_frame:
  assumes "predict h t x flag = Inr (r, h', t') \<or> predict h t x flag = Inl (e, h', t')"
    and "\<forall>m. model t = Some m \<longrightarrow> a \<notin> set (parameters m)"
  shows "cells h' a = cells h a"
proof (cases "normalize_test_input t x")
  case (Inl err)
  then show ?thesis using assms(1) by (auto simp: predict_def)
next
  case (Inr x')
  show ?thesis
  proof (cases "ensemble_outputs h t x'")
    case (Inl eh)
    obtain e1 h1 where eh: "eh = (e1, h1)" by (cases eh)
    have "h' = h1" using assms(1) Inr Inl eh by (auto simp: predict_def)
    then show ?thesis
      using ensemble_outputs_frame [of h t x' undefined h' e1 a] Inl eh assms(2) by simp
  next
    case o: (Inr oh)
    obtain outs h1 where oh: "oh = (outs, h1)" by (cases oh)
    have "h' = h1"
      using assms(1) Inr o oh by (cases "aggregate t outs flag") (auto simp: predict_def)
    then show ?thesis
      using ensemble_outputs_frame [of h t x' outs h' undefined a] o oh assms(2) by simp
  qed
qed

lemma predict_keeps_snapshots:
  assumes "wf_state t"
    and "predict h t x flag = Inr (r, h', t') \<or> predict h t x flag = Inl (e, h', t')"
  shows "map (map (cells h')) (sampled_weights t) = map (map (cells h)) (sampled_weights t)"
proof (intro map_cong refl)
  fix w a assume wa: "w \<in> set (sampled_weights t)" "a \<in> set w"
  have "\<forall>m. model t = Some m \<longrightarrow> a \<notin> set (parameters m)"
    using assms(1) wa by (auto simp: wf_state_def list_all_iff split: option.splits)
  then show "cells h' a = cells h a" by (rule predict_frame [OF assms(2)])
qed




subsection \<open>The number of snapshots\<close>

lemma train_snapshot_count:
  assumes "normalize_input t" and "normalize_output t" and "1 \<le> batch_size t"
    and "rows x \<noteq> []" and "length y = length (rows x)"
    and "0 \<le> S" and "S \<le> sys_maxsize" and "K \<noteq> 0 \<or> S \<le> B + 1"
  shows "\<exists>h' t'. train smp h t x y S K B lr noise mdecay = Inr (h', t') \<and> is_trained t'
           \<and> length (sampled_weights t') = length (recording_steps K B (nat S))"
proof -
  from train_run [OF assms, of smp h lr noise mdecay] obtain h' t' where
    t: "train smp h t x y S K B lr noise mdecay = Inr (h', t')" "is_trained t'"
    and c: "map (map (cells h')) (sampled_weights t')
          = map (\<lambda>step. parameters_after smp t x y B lr noise mdecay (Suc step))
              (recording_steps K B (nat S))"
    by blast
  from c have "length (sampled_weights t') = length (recording_steps K B (nat S))"
    by (metis length_map)
  with t show ?thesis by blast
qed

lemma recording_steps_burn_in:
  "int n \<le> B + 1 \<Longrightarrow> recording_steps K B n = []"
  by (auto simp: recording_steps_def filter_empty_conv)

lemma sys_maxsize_bounds: "150 \<le> sys_maxsize" "2000 \<le> sys_maxsize" "6 \<le> sys_maxsize"
  by (simp_all add: sys_maxsize_def)

lemma example_preconditions:
  "normalize_input example_trainer" "normalize_output example_trainer"
  "1 \<le> batch_size example_trainer" "rows example_x \<noteq> []"
  "length example_y = length (rows example_x)"
  by (simp_all add: example_trainer_def example_x_def example_y_def)

lemma train_snapshot_count_formula:
  assumes "normalize_input t" and "normalize_output t" and "1 \<le> batch_size t"
    and "rows x \<noteq> []" and "length y = length (rows x)"
    and "0 \<le> S" and "S \<le> sys_maxsize" and "S \<le> B \<or> (0 \<le> B \<and> 1 \<le> K)"
  shows "\<exists>h' t'. train smp h t x y S K B lr noise mdecay = Inr (h', t') \<and> is_trained t'
           \<and> length (sampled_weights t') = (if B < S then nat ((S - B - 1) div K) else 0)"
proof -
  have K: "K \<noteq> 0 \<or> S \<le> B + 1" using assms(8) by auto
  have "length (recording_steps K B (nat S)) = (if B < S then nat ((S - B - 1) div K) else 0)"
  proof (cases "S \<le> B")
    case True
    then have "int (nat S) \<le> B + 1" using assms(6) by simp
    then show ?thesis using True by (simp add: recording_steps_burn_in)
  next
    case False
    then have "0 \<le> B" "1 \<le> K" using assms(8) by simp_all
    then show ?thesis using False assms(6) by (simp add: length_recording_steps)
  qed
  then show ?thesis
    using train_snapshot_count [OF assms(1-7) K, of smp h lr noise mdecay] by simp
qed

text \<open>
  Claim C1 fails on the code. The docstring of \<^verbatim>\<open>train\<close> (lines 167-180) counts
  \<^verbatim>\<open>num_steps\<close> as burn-in steps plus sampling steps and promises
  \<^verbatim>\<open>num_steps // keep_every\<close> samples of the sampling steps, which is the count of
  the claim: 5 for 150 steps with 100 burn-in steps and one sample every 10 steps, 30
  for 2000 steps with 500 burn-in steps and one sample every 50 steps. The loop tests
  the 0-based index of \<^verbatim>\<open>enumerate\<close> after the sampler's step, with \<^verbatim>\<open>step >
  num_burn_in_steps\<close>: the indices are \<open>0, ..., S - 1\<close>, the first snapshot is taken
  at index \<open>B + K\<close>, and the call on the example data returns with 4 snapshots (at the
  indices 110, 120, 130, 140) and with 29, one less than promised.
\<close>

theorem train_records_one_snapshot_less:
  "snapshot_count (train example_sampler example_heap example_trainer example_x example_y
       150 10 100 (1 / 100) 0 (1 / 20)) = Some 4
   \<and> claimed_snapshot_count 150 10 100 = 5
   \<and> snapshot_count (train example_sampler example_heap example_trainer example_x example_y
       2000 50 500 (1 / 100) 0 (1 / 20)) = Some 29
   \<and> claimed_snapshot_count 2000 50 500 = 30"
proof -
  have a: "length (recording_steps 10 100 (nat 150)) = 4"
    by (simp add: length_recording_steps)
  have b: "length (recording_steps 50 500 (nat 2000)) = 29"
    by (simp add: length_recording_steps)
  from train_snapshot_count [OF example_preconditions _ sys_maxsize_bounds(1),
      of 10 100 example_sampler example_heap "1 / 100" 0 "1 / 20"]
  have "snapshot_count (train example_sampler example_heap example_trainer example_x example_y
       150 10 100 (1 / 100) 0 (1 / 20)) = Some 4"
    unfolding a by (auto simp: snapshot_count_def)
  moreover
  from train_snapshot_count [OF example_preconditions _ sys_maxsize_bounds(2),
      of 50 500 example_sampler example_heap "1 / 100" 0 "1 / 20"]
  have "snapshot_count (train example_sampler example_heap example_trainer example_x example_y
       2000 50 500 (1 / 100) 0 (1 / 20)) = Some 29"
    unfolding b by (auto simp: snapshot_count_def)
  ultimately show ?thesis by (simp add: claimed_snapshot_count_def)
qed

subsection \<open>When a snapshot is recorded\<close>

lemma train_step_Inr_snapshots:
  assumes "train_step smp m loader K B step (s, h, t) = Inr (s', h', t')"
  shows "if B < int step \<and> (int step - B) mod K = 0
         then \<exists>w. sampled_weights t' = sampled_weights t @ [w]
         else sampled_weights t' = sampled_weights t"
  using assms
  by (auto simp: train_step_def Let_def split_beta split: option.splits sum.splits if_splits)

lemma train_step_no_division_before_burn_in:
  "int step \<le> B \<Longrightarrow> train_step smp m loader K B step (s, h, t) \<noteq> Inl (ZeroDivisionError, h', t')"
  by (auto simp: train_step_def Let_def split_beta nll_def
      split: option.splits sum.splits if_splits)

text \<open>
  Claim C2. The body of the loop at index \<open>step\<close> appends one snapshot when it returns
  with \<open>step > num_burn_in_steps\<close> and \<open>(step - num_burn_in_steps) mod keep_every = 0\<close>,
  and leaves the snapshots as they are otherwise, also when it raises. At or before the
  end of burn-in the remainder is not even computed, whatever \<open>keep_every\<close> is.
\<close>

theorem snapshot_recorded_iff_on_cadence_after_burn_in:
  "(train_step smp m loader K B step (s, h, t) = Inr (s', h', t') \<longrightarrow>
      (if B < int step \<and> (int step - B) mod K = 0
       then \<exists>w. sampled_weights t' = sampled_weights t @ [w]
       else sampled_weights t' = sampled_weights t))
   \<and> (train_step smp m loader K B step (s, h, t) = Inl (e, h', t') \<longrightarrow>
        sampled_weights t' = sampled_weights t)
   \<and> (int step \<le> B \<longrightarrow>
        train_step smp m loader K B step (s, h, t) \<noteq> Inl (ZeroDivisionError, h', t'))"
  using train_step_Inr_snapshots [of smp m loader K B step s h t s' h' t']
    train_step_Inl_trainer [of smp m loader K B step s h t e h' t']
    train_step_no_division_before_burn_in [of step B smp m loader K s h t h' t']
  by auto

lemma example_step_110:
  "train_step example_sampler \<lparr>parameters = [0], forward = example_forward\<rparr>
     (training_stream example_trainer example_x example_y) 10 100 110
     ((), trained_heap, trained_trainer)
   = Inr ((), \<lparr>cells = (\<lambda>a. vec [])(0 := vec [8], 1 := vec [1], 2 := vec [3], 3 := vec [8]), next_addr = 4\<rparr>,
          trained_trainer\<lparr>sampled_weights := [[1], [2], [3]]\<rparr>)"
  apply (simp add: train_step_def training_stream_def infinite_dataloader_def DataLoader_def
      example_trainer_def example_x_def example_y_def example_sampler_def
      zero_mean_unit_var_normalization_def zero_mean_unit_var_normalization_1d_def Let_def
      trained_heap_def trained_trainer_def nll_def broadcast2_def network_weights_def alloc_def
      example_forward_def vec_def)
  apply (auto simp: fun_eq_iff)
  done

lemma example_step_100:
  "train_step example_sampler \<lparr>parameters = [0], forward = example_forward\<rparr>
     (training_stream example_trainer example_x example_y) 0 100 100
     ((), trained_heap, trained_trainer)
   = Inr ((), \<lparr>cells = (\<lambda>a. vec [])(0 := vec [8], 1 := vec [1], 2 := vec [3]), next_addr = 3\<rparr>,
          trained_trainer)"
  apply (simp add: train_step_def training_stream_def infinite_dataloader_def DataLoader_def
      example_trainer_def example_x_def example_y_def example_sampler_def
      zero_mean_unit_var_normalization_def zero_mean_unit_var_normalization_1d_def Let_def
      trained_heap_def trained_trainer_def nll_def broadcast2_def network_weights_def alloc_def
      example_forward_def vec_def)
  apply (auto simp: fun_eq_iff)
  done

theorem snapshot_recorded_iff_on_cadence_after_burn_in_witness:
  "train_step example_sampler \<lparr>parameters = [0], forward = example_forward\<rparr>
     (training_stream example_trainer example_x example_y) 10 100 110
     ((), trained_heap, trained_trainer)
   = Inr ((), \<lparr>cells = (\<lambda>a. vec [])(0 := vec [8], 1 := vec [1], 2 := vec [3], 3 := vec [8]), next_addr = 4\<rparr>,
          trained_trainer\<lparr>sampled_weights := [[1], [2], [3]]\<rparr>)
   \<and> (\<exists>w. sampled_weights (trained_trainer\<lparr>sampled_weights := [[1], [2], [3]]\<rparr>)
           = sampled_weights trained_trainer @ [w])
   \<and> train_step example_sampler \<lparr>parameters = [0], forward = example_forward\<rparr>
     (training_stream example_trainer example_x example_y) 0 100 100
     ((), trained_heap, trained_trainer)
   = Inr ((), \<lparr>cells = (\<lambda>a. vec [])(0 := vec [8], 1 := vec [1], 2 := vec [3]), next_addr = 3\<rparr>, trained_trainer)"
  using snapshot_recorded_iff_on_cadence_after_burn_in
      [of example_sampler "\<lparr>parameters = [0], forward = example_forward\<rparr>"
          "training_stream example_trainer example_x example_y" 10 100 110 "()" trained_heap
          trained_trainer "()"
          "\<lparr>cells = (\<lambda>a. vec [])(0 := vec [8], 1 := vec [1], 2 := vec [3], 3 := vec [8]), next_addr = 4\<rparr>"
          "trained_trainer\<lparr>sampled_weights := [[1], [2], [3]]\<rparr>"]
    example_step_110 example_step_100
  by simp

subsection \<open>Training without normalization\<close>

lemma train_without_normalization:
  "\<not> normalize_input t \<Longrightarrow>
     train smp h t x y S K B lr noise mdecay
       = Inl (UnboundLocalError, h, t\<lparr>sampled_weights := []\<rparr>)"
  "normalize_input t \<Longrightarrow> \<not> normalize_output t \<Longrightarrow>
     train smp h t x y S K B lr noise mdecay
       = Inl (UnboundLocalError, h,
              t\<lparr>sampled_weights := [],
                x_mean := Some (fst (snd (zero_mean_unit_var_normalization x))),
                x_std := Some (snd (snd (zero_mean_unit_var_normalization x)))\<rparr>)"
  by (simp_all add: train_def shape_def normalize_training_data_def Let_def split_beta)

text \<open>
  Claim C3 fails on the code. With input normalization disabled, line 201 reads
  \<^verbatim>\<open>x_train_\<close> before any assignment; with only output normalization disabled,
  line 207 does the same with \<^verbatim>\<open>y_train_\<close>. \<^verbatim>\<open>train\<close> raises
  \<^verbatim>\<open>UnboundLocalError\<close> before the model is built, here on the example inputs.
\<close>

theorem train_with_normalization_disabled_raises:
  "train example_sampler example_heap (example_trainer\<lparr>normalize_input := False\<rparr>)
       example_x example_y 150 10 100 (1 / 100) 0 (1 / 20)
     = Inl (UnboundLocalError, example_heap, example_trainer\<lparr>normalize_input := False\<rparr>)
   \<and> train example_sampler example_heap (example_trainer\<lparr>normalize_output := False\<rparr>)
       example_x example_y 150 10 100 (1 / 100) 0 (1 / 20)
     = Inl (UnboundLocalError, example_heap,
            example_trainer\<lparr>normalize_output := False,
              x_mean := Some (fst (snd (zero_mean_unit_var_normalization example_x))),
              x_std := Some (snd (snd (zero_mean_unit_var_normalization example_x)))\<rparr>)"
proof -
  have e: "example_trainer\<lparr>normalize_input := False, sampled_weights := []\<rparr>
             = example_trainer\<lparr>normalize_input := False\<rparr>"
    "example_trainer\<lparr>normalize_output := False, sampled_weights := []\<rparr>
             = example_trainer\<lparr>normalize_output := False\<rparr>"
    by (simp_all add: example_trainer_def)
  have n: "\<not> normalize_input (example_trainer\<lparr>normalize_input := False\<rparr>)"
    "normalize_input (example_trainer\<lparr>normalize_output := False\<rparr>)"
    "\<not> normalize_output (example_trainer\<lparr>normalize_output := False\<rparr>)"
    by (simp_all add: example_trainer_def)
  show ?thesis
    using train_without_normalization(1) [OF n(1), of example_sampler example_heap example_x
        example_y 150 10 100 "1 / 100" 0 "1 / 20"]
      train_without_normalization(2) [OF n(2,3), of example_sampler example_heap example_x
        example_y 150 10 100 "1 / 100" 0 "1 / 20"]
    by (simp add: e)
qed

section \<open>Prediction before training\<close>

lemma predict_fresh:
  assumes "init g b ni no = Inr t"
  shows "predict h t x flag = Inl (if ni then AttributeError else IndexError, h, t)"
proof -
  from assms have t: "normalize_input t = ni" "x_mean t = None" "sampled_weights t = []"
    by (auto simp: init_def split: if_splits)
  show ?thesis
    using t by (simp add: predict_def normalize_test_input_def ensemble_outputs_def aggregate_def)
qed

lemma predict_no_snapshot:
  assumes "sampled_weights t = []"
  shows "\<exists>e. predict h t x flag = Inl (e, h, t)
          \<and> (e = AttributeError \<or> e = ValueError \<or> e = IndexError)"
proof (cases "normalize_test_input t x")
  case (Inl err)
  then show ?thesis using normalize_test_input_error [OF Inl] by (auto simp: predict_def)
next
  case (Inr x')
  then show ?thesis
    using assms by (simp add: predict_def ensemble_outputs_def aggregate_def)
qed

lemma ensemble_outputs_error:
  "ensemble_outputs h t x' = Inl (e, h') \<Longrightarrow> e = AttributeError \<or> e = RuntimeError"
  using network_outputs_frame_fail [of _ "rows x'" "sampled_weights t" h e h']
  by (auto simp: ensemble_outputs_def split: list.splits option.splits)

lemma aggregate_error:
  "aggregate t outs flag = Inl e \<Longrightarrow> e = IndexError \<or> e = AttributeError"
  by (auto simp: aggregate_def split: if_splits option.splits)

lemma predict_error:
  assumes "predict h t x flag = Inl (e, h', t')"
  shows "e = AttributeError \<or> e = ValueError \<or> e = IndexError \<or> e = RuntimeError"
proof (cases "normalize_test_input t x")
  case (Inl err)
  then show ?thesis using assms normalize_test_input_error [OF Inl] by (auto simp: predict_def)
next
  case (Inr x')
  show ?thesis
  proof (cases "ensemble_outputs h t x'")
    case (Inl eh)
    obtain e1 h1 where eh: "eh = (e1, h1)" by (cases eh)
    have "e = e1" using assms Inr Inl eh by (auto simp: predict_def)
    then show ?thesis using ensemble_outputs_error [of h t x' e1 h1] Inl eh by auto
  next
    case o: (Inr oh)
    obtain outs h1 where oh: "oh = (outs, h1)" by (cases oh)
    have "aggregate t outs flag = Inl e"
      using assms Inr o oh by (cases "aggregate t outs flag") (auto simp: predict_def)
    then show ?thesis using aggregate_error by blast
  qed
qed

lemma predict_never_not_trained:
  "predict h t x flag \<noteq> Inl (NotTrained, h', t')"
  using predict_error [of h t x flag NotTrained h' t'] by auto

text \<open>
  Claim C4, as amended. \<^verbatim>\<open>predict\<close> tests neither \<^verbatim>\<open>is_trained\<close> nor the store of
  snapshots, and raises no signal of its own for a trainer that was not trained: no
  call of \<^verbatim>\<open>predict\<close> ends in \<open>NotTrained\<close>. What it does on a trainer as
  \<^verbatim>\<open>__init__\<close> built it is to raise, for every test input, the exception of the first
  statement that fails: \<^verbatim>\<open>AttributeError\<close> (\<^verbatim>\<open>self.x_mean\<close> is not set) with input
  normalization, \<^verbatim>\<open>IndexError\<close> (indexing the empty array of outputs) without. More
  generally it raises one of \<^verbatim>\<open>AttributeError\<close>, \<^verbatim>\<open>ValueError\<close> and
  \<^verbatim>\<open>IndexError\<close> whenever the trainer has no snapshot, which is also the state a
  failed call of \<^verbatim>\<open>train\<close> leaves. It returns no numbers, and the trainer and the
  store are left as they were.
\<close>

theorem predict_before_training_fails:
  "(init g b ni no = Inr t \<longrightarrow>
      predict h t x flag = Inl (if ni then AttributeError else IndexError, h, t))
   \<and> (sampled_weights t = [] \<longrightarrow>
      (\<exists>e. predict h t x flag = Inl (e, h, t)
          \<and> (e = AttributeError \<or> e = ValueError \<or> e = IndexError)))
   \<and> (train smp h0 t0 x0 y0 S K B lr noise mdecay = Inl (e0, h, t) \<longrightarrow>
      (\<exists>e. predict h t x flag = Inl (e, h, t)
          \<and> (e = AttributeError \<or> e = ValueError \<or> e = IndexError)))
   \<and> predict h t x flag \<noteq> Inl (NotTrained, h1, t1)"
  using predict_fresh [of g b ni no t h x flag] predict_no_snapshot [of t h x flag]
    train_failure_no_snapshot [of smp h0 t0 x0 y0 S K B lr noise mdecay e0 h t]
    predict_never_not_trained [of h t x flag h1 t1]
  by blast

theorem predict_before_training_fails_witness:
  "init example_network 20 True True = Inr example_trainer
   \<and> predict example_heap example_trainer example_x False
       = Inl (AttributeError, example_heap, example_trainer)
   \<and> init example_network 20 False True = Inr (example_trainer\<lparr>normalize_input := False\<rparr>)
   \<and> predict example_heap (example_trainer\<lparr>normalize_input := False\<rparr>) example_x False
       = Inl (IndexError, example_heap, example_trainer\<lparr>normalize_input := False\<rparr>)
   \<and> sampled_weights example_trainer = []
   \<and> train example_sampler example_heap (example_trainer\<lparr>normalize_input := False\<rparr>)
         example_x example_y 150 10 100 (1 / 100) 0 (1 / 20)
       = Inl (UnboundLocalError, example_heap, example_trainer\<lparr>normalize_input := False\<rparr>)
   \<and> (\<exists>e. predict example_heap (example_trainer\<lparr>normalize_input := False\<rparr>) example_x False
             = Inl (e, example_heap, example_trainer\<lparr>normalize_input := False\<rparr>)
          \<and> (e = AttributeError \<or> e = ValueError \<or> e = IndexError))"
proof -
  let ?t = "example_trainer\<lparr>normalize_input := False\<rparr>"
  have a: "init example_network 20 True True = Inr example_trainer"
    and b: "init example_network 20 False True = Inr ?t"
    by (simp_all add: init_def example_trainer_def)
  have s: "sampled_weights example_trainer = []" by (simp add: example_trainer_def)
  have e: "?t\<lparr>sampled_weights := []\<rparr> = ?t" by (simp add: example_trainer_def)
  have n: "\<not> normalize_input ?t" by (simp add: example_trainer_def)
  have tr: "train example_sampler example_heap ?t example_x example_y
              150 10 100 (1 / 100) 0 (1 / 20)
            = Inl (UnboundLocalError, example_heap, ?t)"
    using train_without_normalization(1) [OF n, of example_sampler example_heap example_x
        example_y 150 10 100 "1 / 100" 0 "1 / 20"]
    by (simp only: e)
  have c: "\<exists>e. predict example_heap ?t example_x False = Inl (e, example_heap, ?t)
          \<and> (e = AttributeError \<or> e = ValueError \<or> e = IndexError)"
    by (rule predict_before_training_fails [of _ _ _ _ ?t example_heap example_x False
          example_sampler example_heap ?t example_x example_y 150 10 100 "1 / 100" 0 "1 / 20"
          UnboundLocalError,
        THEN conjunct2, THEN conjunct2, THEN conjunct1, THEN mp, OF tr])
  show ?thesis
    using a b s tr c
      predict_before_training_fails [of example_network 20 True True example_trainer
        example_heap example_x False, THEN conjunct1, THEN mp, OF a]
      predict_before_training_fails [of example_network 20 False True
        "example_trainer\<lparr>normalize_input := False\<rparr>" example_heap example_x False,
        THEN conjunct1, THEN mp, OF b]
    by simp
qed

text \<open>
  The claim as it stands asks for a signal that the trainer is not trained. On the
  trainer that \<^verbatim>\<open>Bohamiann(normalize_input=False)\<close> builds, \<^verbatim>\<open>predict\<close> runs up to
  line 282 and fails there with the \<^verbatim>\<open>IndexError\<close> of \<^verbatim>\<open>network_outputs[:, :, 0]\<close>
  (too many indices for an array of one dimension), which is not that signal.
\<close>

theorem predict_before_training_fails_counterexample:
  "init example_network 20 False True = Inr (example_trainer\<lparr>normalize_input := False\<rparr>)
   \<and> is_trained (example_trainer\<lparr>normalize_input := False\<rparr>) = False
   \<and> sampled_weights (example_trainer\<lparr>normalize_input := False\<rparr>) = []
   \<and> predict example_heap (example_trainer\<lparr>normalize_input := False\<rparr>) example_x False
       = Inl (IndexError, example_heap, example_trainer\<lparr>normalize_input := False\<rparr>)
   \<and> predict example_heap (example_trainer\<lparr>normalize_input := False\<rparr>) example_x False
       \<noteq> Inl (NotTrained, example_heap, example_trainer\<lparr>normalize_input := False\<rparr>)"
proof -
  have b: "init example_network 20 False True = Inr (example_trainer\<lparr>normalize_input := False\<rparr>)"
    by (simp add: init_def example_trainer_def)
  show ?thesis
    using b predict_fresh [OF b, of example_heap example_x False]
    by (simp add: example_trainer_def)
qed

section \<open>The ensemble moments\<close>

lemma sum_list_map_nth:
  "sum_list (map f xs) = (\<Sum>s<length xs. f (xs ! s))"
proof -
  have "sum_list (map f xs) = (\<Sum>s = 0..<length xs. map f xs ! s)"
    by (simp add: sum_list_sum_nth)
  also have "\<dots> = (\<Sum>s<length xs. f (xs ! s))"
    by (intro sum.cong) (auto simp: atLeast0LessThan)
  finally show ?thesis .
qed

lemma np_mean_axis0_nth:
  assumes "a \<noteq> []" and "j < length (hd a)"
  shows "np_mean_axis0 a ! j = (\<Sum>s<length a. a ! s ! j) / real (length a)"
proof -
  obtain r rs where a: "a = r # rs" using assms(1) by (cases a) auto
  have "np_mean_axis0 a ! j = np_mean (column j a)"
    using assms(2) a by (simp add: np_mean_axis0_def del: upt_Suc)
  also have "\<dots> = (\<Sum>s<length a. a ! s ! j) / real (length a)"
    unfolding np_mean_def column_def by (simp only: sum_list_map_nth length_map)
  finally show ?thesis .
qed

lemma ensemble_moments:
  assumes "outs \<noteq> []" and "\<forall>r\<in>set outs. length r = M" and "j < M"
  shows "mean_prediction outs ! j = (\<Sum>s<length outs. fst (outs ! s ! j)) / real (length outs)
       \<and> variance_prediction outs ! j =
           (\<Sum>s<length outs. (fst (outs ! s ! j))\<^sup>2 + exp (snd (outs ! s ! j))) / real (length outs)
             - (mean_prediction outs ! j)\<^sup>2
       \<and> length (mean_prediction outs) = M \<and> length (variance_prediction outs) = M"
proof -
  have hd: "length (hd outs) = M" using assms(1,2) by (cases outs) simp_all
  have len: "\<And>s. s < length outs \<Longrightarrow> length (outs ! s) = M" using assms(2) by simp
  have lm: "length (mean_prediction outs) = M"
    using assms(1) hd by (cases outs) (simp_all add: mean_prediction_def np_mean_axis0_def)
  have m: "mean_prediction outs ! j = (\<Sum>s<length outs. fst (outs ! s ! j)) / real (length outs)"
    unfolding mean_prediction_def
    using assms(1,3) hd len by (subst np_mean_axis0_nth) (simp_all add: hd_map)
  have lv: "length (np_mean_axis0 (map (map (\<lambda>(m, l). m\<^sup>2 + exp l)) outs)) = M"
    using assms(1) hd by (cases outs) (simp_all add: np_mean_axis0_def)
  have v: "np_mean_axis0 (map (map (\<lambda>(m, l). m\<^sup>2 + exp l)) outs) ! j
         = (\<Sum>s<length outs. (fst (outs ! s ! j))\<^sup>2 + exp (snd (outs ! s ! j))) / real (length outs)"
    using assms(1,3) hd len
    by (subst np_mean_axis0_nth) (simp_all add: hd_map case_prod_beta)
  show ?thesis
    using m v lm lv assms(3) by (simp add: variance_prediction_def)
qed

lemma length_moments:
  assumes "outs \<noteq> []"
  shows "length (mean_prediction outs) = length (hd outs)"
    and "length (variance_prediction outs) = length (hd outs)"
  using assms
  by (cases outs; simp add: mean_prediction_def variance_prediction_def np_mean_axis0_def)+

lemma network_outputs_values:
  assumes "network_outputs m x ws h = Inr (outs, h')" and "distinct (parameters m)"
    and "\<forall>w\<in>set ws. length w = length (parameters m) \<and> set w \<inter> set (parameters m) = {}"
  shows "outs = map (\<lambda>w. map (forward m (restored_values h (parameters m) w)) x) ws"
  using assms
proof (induction ws arbitrary: h outs)
  case Nil
  then show ?case by simp
next
  case (Cons w ws)
  from Cons.prems(1) obtain h1 outs1 where
    r: "set_network_weights (parameters m) w h = Inr h1"
    and n: "network_outputs m x ws h1 = Inr (outs1, h')"
    and o: "outs = map (forward m (map (cells h1) (parameters m))) x # outs1"
    by (auto simp: Let_def split: sum.splits)
  have w: "length w = length (parameters m)" "set w \<inter> set (parameters m) = {}"
    using Cons.prems(3) by simp_all
  have v: "map (cells h1) (parameters m) = restored_values h (parameters m) w"
    by (rule set_network_weights_values [OF r Cons.prems(2) w(2) w(1)])
  have "outs1 = map (\<lambda>w. map (forward m (restored_values h1 (parameters m) w)) x) ws"
    using Cons.IH [OF n Cons.prems(2)] Cons.prems(3) by simp
  also have "\<dots> = map (\<lambda>w. map (forward m (restored_values h (parameters m) w)) x) ws"
  proof (rule map_cong [OF refl])
    fix w' assume w': "w' \<in> set ws"
    have eq: "restored_values h1 (parameters m) w' = restored_values h (parameters m) w'"
    proof (rule restored_values_cong)
      fix p
      show "sizes (cells h1 p) = sizes (cells h p)"
        using set_network_weights_sizes [of "parameters m" w h h1] r by simp
    next
      fix a assume "a \<in> set w'"
      then have "a \<notin> set (parameters m)" using Cons.prems(3) w' by auto
      then show "cells h1 a = cells h a" by (rule set_network_weights_other [OF r])
    qed
    show "map (forward m (restored_values h1 (parameters m) w')) x
        = map (forward m (restored_values h (parameters m) w')) x"
      by (simp only: eq)
  qed
  finally show ?case using o v by simp
qed

lemma network_outputs_lengths:
  "network_outputs m x ws h = Inr (outs, h') \<Longrightarrow> \<forall>r\<in>set outs. length r = length x"
proof (induction ws arbitrary: h outs)
  case Nil
  then show ?case by simp
next
  case (Cons w ws)
  from Cons.prems obtain h1 outs1 where
    n: "network_outputs m x ws h1 = Inr (outs1, h')"
    and o: "outs = map (forward m (map (cells h1) (parameters m))) x # outs1"
    by (auto simp: Let_def split: sum.splits)
  show ?case using Cons.IH [OF n] o by simp
qed

lemma ensemble_outputs_lengths:
  "ensemble_outputs h t x' = Inr (outs, h') \<Longrightarrow> \<forall>r\<in>set outs. length r = length (rows x')"
  using network_outputs_lengths [of _ "rows x'" "sampled_weights t" h outs h']
  by (auto simp: ensemble_outputs_def split: list.splits option.splits)

lemma predict_raw_outputs:
  assumes "wf_state t" and "\<not> normalize_output t"
    and "predict h t x flag = Inr ((mean, var, ind), h', t')"
  shows "\<exists>m x'. model t = Some m \<and> normalize_test_input t x = Inr x'
     \<and> sampled_weights t \<noteq> []
     \<and> mean = mean_prediction
                (map (\<lambda>w. map (snapshot_output h m w) (rows x')) (sampled_weights t))
     \<and> var = variance_prediction
                (map (\<lambda>w. map (snapshot_output h m w) (rows x')) (sampled_weights t))"
proof -
  from assms(3) obtain x' outs where
    n: "normalize_test_input t x = Inr x'" and e: "ensemble_outputs h t x' = Inr (outs, h')"
    and a: "aggregate t outs flag = Inr (mean, var, ind)"
    unfolding predict_Inr_iff by blast
  from a assms(2) have ne: "outs \<noteq> []" and r: "mean = mean_prediction outs"
      "var = variance_prediction outs"
    by (auto simp: aggregate_def split: if_splits)
  from e ne have s: "sampled_weights t \<noteq> []" by (auto simp: ensemble_outputs_def)
  from wf_state_model [OF assms(1) s] obtain m where
    m: "model t = Some m" and d: "distinct (parameters m)"
    and w: "\<forall>w\<in>set (sampled_weights t). length w = length (parameters m)
              \<and> set w \<inter> set (parameters m) = {}"
    by blast
  from e m s have "network_outputs m (rows x') (sampled_weights t) h = Inr (outs, h')"
    by (auto simp: ensemble_outputs_def split: list.splits)
  from network_outputs_values [OF this d w]
  have "outs = map (\<lambda>w. map (snapshot_output h m w) (rows x')) (sampled_weights t)"
    by (simp add: snapshot_output_def)
  with r m n s show ?thesis by blast
qed

lemma example_raw_prediction:
  "predict trained_heap (trained_trainer\<lparr>normalize_output := False\<rparr>) example_x False
   = Inr (([2, 2], [2, 2], None), trained_heap\<lparr>cells := (cells trained_heap)(0 := vec [3])\<rparr>,
          trained_trainer\<lparr>normalize_output := False\<rparr>)"
  by (simp add: predict_def normalize_test_input_def ensemble_outputs_def aggregate_def
      trained_heap_def trained_trainer_def example_x_def example_forward_def vec_def
      tensor_copy_def
      zero_mean_unit_var_normalization_with_def broadcast_cols_def
      mean_prediction_def variance_prediction_def np_mean_axis0_def np_mean_def column_def)


text \<open>
  Claim C6. For the outputs of \<open>S \<ge> 1\<close> snapshots on \<open>M\<close> test points, the ensemble mean
  at a test point is the arithmetic mean over the snapshots of the mean column, and the
  ensemble variance is the mean over the snapshots of \<open>\<mu>\<^sup>2 + exp l\<close> minus the square of
  the ensemble mean. These are the moments \<^verbatim>\<open>predict\<close> returns when the output is not
  normalized, the outputs being those of the forward pass with each snapshot in turn
  assigned to the parameters, which are the values of the snapshot when it has the
  shapes of the parameters. The witness is the example of the spec: means 1 and 3 with
  log variances 0 give mean 2 and variance 2.
\<close>

theorem ensemble_mean_and_total_variance:
  "(outs \<noteq> [] \<and> (\<forall>r\<in>set outs. length r = M) \<and> j < M \<longrightarrow>
      mean_prediction outs ! j = (\<Sum>s<length outs. fst (outs ! s ! j)) / real (length outs)
      \<and> variance_prediction outs ! j =
           (\<Sum>s<length outs. (fst (outs ! s ! j))\<^sup>2 + exp (snd (outs ! s ! j))) / real (length outs)
             - (mean_prediction outs ! j)\<^sup>2)
   \<and> (wf_state t \<and> \<not> normalize_output t
        \<and> predict h t x flag = Inr ((mean, var, ind), h', t') \<longrightarrow>
      (\<exists>m x'. model t = Some m \<and> normalize_test_input t x = Inr x'
         \<and> length mean = length (rows x') \<and> length var = length (rows x')
         \<and> (\<forall>i<length (rows x').
               mean ! i
                 = (\<Sum>s<length (sampled_weights t).
                      fst (snapshot_output h m (sampled_weights t ! s) (rows x' ! i)))
                   / real (length (sampled_weights t))
               \<and> var ! i
                 = (\<Sum>s<length (sampled_weights t).
                      (fst (snapshot_output h m (sampled_weights t ! s) (rows x' ! i)))\<^sup>2
                      + exp (snd (snapshot_output h m (sampled_weights t ! s) (rows x' ! i))))
                   / real (length (sampled_weights t))
                   - (mean ! i)\<^sup>2)
         \<and> (same_shapes h t \<longrightarrow>
               (\<forall>w\<in>set (sampled_weights t).
                  snapshot_output h m w = forward m (map (cells h) w)))))"
proof (rule conjI; rule impI)
  assume "outs \<noteq> [] \<and> (\<forall>r\<in>set outs. length r = M) \<and> j < M"
  then show "mean_prediction outs ! j = (\<Sum>s<length outs. fst (outs ! s ! j)) / real (length outs)
      \<and> variance_prediction outs ! j =
           (\<Sum>s<length outs. (fst (outs ! s ! j))\<^sup>2 + exp (snd (outs ! s ! j))) / real (length outs)
             - (mean_prediction outs ! j)\<^sup>2"
    using ensemble_moments [of outs M j] by blast
next
  assume a: "wf_state t \<and> \<not> normalize_output t
        \<and> predict h t x flag = Inr ((mean, var, ind), h', t')"
  then obtain m x' where m: "model t = Some m" and n: "normalize_test_input t x = Inr x'"
    and s: "sampled_weights t \<noteq> []"
    and mean: "mean = mean_prediction
                (map (\<lambda>w. map (snapshot_output h m w) (rows x')) (sampled_weights t))"
    and var: "var = variance_prediction
                (map (\<lambda>w. map (snapshot_output h m w) (rows x')) (sampled_weights t))"
    using predict_raw_outputs [of t h x flag mean var ind h' t'] by blast
  define outs' where
    "outs' = map (\<lambda>w. map (snapshot_output h m w) (rows x')) (sampled_weights t)"
  let ?S = "length (sampled_weights t)"
  let ?M = "length (rows x')"
  have ne: "outs' \<noteq> []" using s by (simp add: outs'_def)
  have len: "\<forall>r\<in>set outs'. length r = ?M" by (auto simp: outs'_def)
  have lS: "length outs' = ?S" by (simp add: outs'_def)
  have hd: "length (hd outs') = ?M" using ne len by (cases outs') simp_all
  have lm: "length mean = ?M" "length var = ?M"
    using length_moments [OF ne] hd by (simp_all add: mean var outs'_def)
  have el: "\<And>s i. s < ?S \<Longrightarrow> i < ?M \<Longrightarrow>
      outs' ! s ! i = snapshot_output h m (sampled_weights t ! s) (rows x' ! i)"
    by (simp add: outs'_def)
  have mom: "\<forall>i<?M.
               mean ! i
                 = (\<Sum>s<?S. fst (snapshot_output h m (sampled_weights t ! s) (rows x' ! i)))
                   / real ?S
               \<and> var ! i
                 = (\<Sum>s<?S.
                      (fst (snapshot_output h m (sampled_weights t ! s) (rows x' ! i)))\<^sup>2
                      + exp (snd (snapshot_output h m (sampled_weights t ! s) (rows x' ! i))))
                   / real ?S
                   - (mean ! i)\<^sup>2"
  proof (intro allI impI)
    fix i assume i: "i < ?M"
    have s1: "(\<Sum>s<?S. fst (outs' ! s ! i))
        = (\<Sum>s<?S. fst (snapshot_output h m (sampled_weights t ! s) (rows x' ! i)))"
      by (rule sum.cong [OF refl]) (simp add: el i)
    have s2: "(\<Sum>s<?S. (fst (outs' ! s ! i))\<^sup>2 + exp (snd (outs' ! s ! i)))
        = (\<Sum>s<?S. (fst (snapshot_output h m (sampled_weights t ! s) (rows x' ! i)))\<^sup>2
                      + exp (snd (snapshot_output h m (sampled_weights t ! s) (rows x' ! i))))"
      by (rule sum.cong [OF refl]) (simp add: el i)
    have mo: "mean = mean_prediction outs'" "var = variance_prediction outs'"
      by (simp_all only: mean var outs'_def)
    from ensemble_moments [OF ne len i]
    have "mean ! i = (\<Sum>s<length outs'. fst (outs' ! s ! i)) / real (length outs')"
      and "var ! i = (\<Sum>s<length outs'. (fst (outs' ! s ! i))\<^sup>2 + exp (snd (outs' ! s ! i)))
                       / real (length outs') - (mean ! i)\<^sup>2"
      unfolding mo by blast+
    then have "mean ! i = (\<Sum>s<?S. fst (outs' ! s ! i)) / real ?S"
      and "var ! i = (\<Sum>s<?S. (fst (outs' ! s ! i))\<^sup>2 + exp (snd (outs' ! s ! i)))
                       / real ?S - (mean ! i)\<^sup>2"
      unfolding lS by blast+
    then show "mean ! i
                 = (\<Sum>s<?S. fst (snapshot_output h m (sampled_weights t ! s) (rows x' ! i)))
                   / real ?S
               \<and> var ! i
                 = (\<Sum>s<?S.
                      (fst (snapshot_output h m (sampled_weights t ! s) (rows x' ! i)))\<^sup>2
                      + exp (snd (snapshot_output h m (sampled_weights t ! s) (rows x' ! i))))
                   / real ?S
                   - (mean ! i)\<^sup>2"
      unfolding s1 s2 by blast
  qed
  have sh: "same_shapes h t \<longrightarrow>
      (\<forall>w\<in>set (sampled_weights t). snapshot_output h m w = forward m (map (cells h) w))"
    using same_shapes_restored_values [of h t m] m by (simp add: snapshot_output_def)
  from m n lm mom sh
  show "\<exists>m x'. model t = Some m \<and> normalize_test_input t x = Inr x'
         \<and> length mean = length (rows x') \<and> length var = length (rows x')
         \<and> (\<forall>i<length (rows x').
               mean ! i
                 = (\<Sum>s<length (sampled_weights t).
                      fst (snapshot_output h m (sampled_weights t ! s) (rows x' ! i)))
                   / real (length (sampled_weights t))
               \<and> var ! i
                 = (\<Sum>s<length (sampled_weights t).
                      (fst (snapshot_output h m (sampled_weights t ! s) (rows x' ! i)))\<^sup>2
                      + exp (snd (snapshot_output h m (sampled_weights t ! s) (rows x' ! i))))
                   / real (length (sampled_weights t))
                   - (mean ! i)\<^sup>2)
         \<and> (same_shapes h t \<longrightarrow>
               (\<forall>w\<in>set (sampled_weights t).
                  snapshot_output h m w = forward m (map (cells h) w)))"
    by blast
qed

theorem ensemble_mean_and_total_variance_witness:
  "mean_prediction [[(1, 0)], [(3, 0)]] ! 0 = 2 \<and> variance_prediction [[(1, 0)], [(3, 0)]] ! 0 = 2
   \<and> wf_state (trained_trainer\<lparr>normalize_output := False\<rparr>)
   \<and> same_shapes trained_heap (trained_trainer\<lparr>normalize_output := False\<rparr>)
   \<and> predict trained_heap (trained_trainer\<lparr>normalize_output := False\<rparr>) example_x False
       = Inr (([2, 2], [2, 2], None), trained_heap\<lparr>cells := (cells trained_heap)(0 := vec [3])\<rparr>,
              trained_trainer\<lparr>normalize_output := False\<rparr>)
   \<and> (\<exists>m x'. model (trained_trainer\<lparr>normalize_output := False\<rparr>) = Some m
         \<and> normalize_test_input (trained_trainer\<lparr>normalize_output := False\<rparr>) example_x = Inr x'
         \<and> length (rows x') = 2
         \<and> snapshot_output trained_heap m [2] = forward m (map (cells trained_heap) [2]))"
proof -
  let ?t = "trained_trainer\<lparr>normalize_output := False\<rparr>"
  have a: "mean_prediction [[(1, 0)], [(3, 0)]] ! 0 = 2
      \<and> variance_prediction [[(1, 0)], [(3, 0)]] ! 0 = 2"
    using ensemble_mean_and_total_variance [of "[[(1, 0)], [(3, 0)]]" 1 0, THEN conjunct1]
    by (simp add: lessThan_Suc)
  have w: "wf_state ?t" and n: "\<not> normalize_output ?t"
    by (simp_all add: wf_state_def trained_trainer_def)
  have ss: "same_shapes trained_heap ?t"
    by (simp add: same_shapes_def trained_trainer_def trained_heap_def vec_def)
  have mem: "[2] \<in> set (sampled_weights ?t)" by (simp add: trained_trainer_def)
  have "\<exists>m x'. model ?t = Some m \<and> normalize_test_input ?t example_x = Inr x'
         \<and> length [2, 2 :: real] = length (rows x')
         \<and> snapshot_output trained_heap m [2] = forward m (map (cells trained_heap) [2])"
    using ensemble_mean_and_total_variance [THEN conjunct2, THEN mp,
        of ?t trained_heap example_x False "[2, 2]" "[2, 2]" None
           "trained_heap\<lparr>cells := (cells trained_heap)(0 := vec [3])\<rparr>" ?t]
      w n ss mem example_raw_prediction
    by blast
  then show ?thesis using a w ss example_raw_prediction by auto
qed

section \<open>Un-normalization of the prediction\<close>

lemma aggregate_normalized:
  assumes "normalize_output t" and "y_mean t = Some mu" and "y_std t = Some sigma"
  shows "aggregate t outs flag = Inr r \<longleftrightarrow>
     outs \<noteq> []
     \<and> r = (map (\<lambda>a. a * sigma + mu) (mean_prediction outs),
            map (\<lambda>v. v * sigma\<^sup>2) (variance_prediction outs),
            if flag then Some (map (map (\<lambda>(a, l). a * sigma + mu)) outs) else None)"
  using assms
  by (auto simp: aggregate_def zero_mean_unit_var_unnormalization_def)

lemma aggregate_raw:
  assumes "\<not> normalize_output t"
  shows "aggregate t outs flag = Inr r \<longleftrightarrow>
     outs \<noteq> []
     \<and> r = (mean_prediction outs, variance_prediction outs,
            if flag then Some (map (map fst) outs) else None)"
  using assms by (auto simp: aggregate_def)

lemma predict_normalized:
  assumes "normalize_output t" and "y_mean t = Some mu" and "y_std t = Some sigma"
    and "predict h t x flag = Inr ((mean, var, ind), h', t')"
  shows "\<exists>x' outs. normalize_test_input t x = Inr x'
      \<and> ensemble_outputs h t x' = Inr (outs, h') \<and> outs \<noteq> []
      \<and> (\<forall>r\<in>set outs. length r = length (rows x'))
      \<and> mean = map (\<lambda>a. a * sigma + mu) (mean_prediction outs)
      \<and> var = map (\<lambda>v. v * sigma\<^sup>2) (variance_prediction outs)
      \<and> ind = (if flag then Some (map (map (\<lambda>(a, l). a * sigma + mu)) outs) else None)
      \<and> length mean = length (rows x') \<and> length var = length (rows x')
      \<and> (\<forall>i<length (rows x').
            mean ! i = (\<Sum>s<length outs. fst (outs ! s ! i)) / real (length outs) * sigma + mu
            \<and> var ! i =
                ((\<Sum>s<length outs. (fst (outs ! s ! i))\<^sup>2 + exp (snd (outs ! s ! i)))
                    / real (length outs)
                  - ((\<Sum>s<length outs. fst (outs ! s ! i)) / real (length outs))\<^sup>2) * sigma\<^sup>2)
      \<and> predict h (t\<lparr>normalize_output := False\<rparr>) x flag
          = Inr ((mean_prediction outs, variance_prediction outs,
                  if flag then Some (map (map fst) outs) else None),
                 h', t\<lparr>normalize_output := False\<rparr>)"
proof -
  from assms(4) obtain x' outs where
    n: "normalize_test_input t x = Inr x'" and e: "ensemble_outputs h t x' = Inr (outs, h')"
    and a: "aggregate t outs flag = Inr (mean, var, ind)"
    unfolding predict_Inr_iff by blast
  from a have ne: "outs \<noteq> []"
    and mean: "mean = map (\<lambda>a. a * sigma + mu) (mean_prediction outs)"
    and var: "var = map (\<lambda>v. v * sigma\<^sup>2) (variance_prediction outs)"
    and ind: "ind = (if flag then Some (map (map (\<lambda>(a, l). a * sigma + mu)) outs) else None)"
    unfolding aggregate_normalized [OF assms(1-3)] by simp_all
  note len = ensemble_outputs_lengths [OF e]
  let ?M = "length (rows x')"
  have pt: "\<forall>i<?M.
            mean ! i = (\<Sum>s<length outs. fst (outs ! s ! i)) / real (length outs) * sigma + mu
            \<and> var ! i =
                ((\<Sum>s<length outs. (fst (outs ! s ! i))\<^sup>2 + exp (snd (outs ! s ! i)))
                    / real (length outs)
                  - ((\<Sum>s<length outs. fst (outs ! s ! i)) / real (length outs))\<^sup>2) * sigma\<^sup>2"
  proof (intro allI impI)
    fix i assume i: "i < ?M"
    from ensemble_moments [OF ne len i]
    have m1: "mean_prediction outs ! i
                = (\<Sum>s<length outs. fst (outs ! s ! i)) / real (length outs)"
      and v1: "variance_prediction outs ! i =
           (\<Sum>s<length outs. (fst (outs ! s ! i))\<^sup>2 + exp (snd (outs ! s ! i))) / real (length outs)
             - (mean_prediction outs ! i)\<^sup>2"
      and lm: "length (mean_prediction outs) = ?M" "length (variance_prediction outs) = ?M"
      by blast+
    have "mean ! i = mean_prediction outs ! i * sigma + mu"
      unfolding mean using i lm by simp
    moreover have "var ! i = variance_prediction outs ! i * sigma\<^sup>2"
      unfolding var using i lm by simp
    ultimately show "mean ! i
              = (\<Sum>s<length outs. fst (outs ! s ! i)) / real (length outs) * sigma + mu
            \<and> var ! i =
                ((\<Sum>s<length outs. (fst (outs ! s ! i))\<^sup>2 + exp (snd (outs ! s ! i)))
                    / real (length outs)
                  - ((\<Sum>s<length outs. fst (outs ! s ! i)) / real (length outs))\<^sup>2) * sigma\<^sup>2"
      by (simp only: m1 v1)
  qed
  have hd: "length (hd outs) = ?M" using ne len by (cases outs) simp_all
  have lm: "length mean = ?M" "length var = ?M"
    using length_moments [OF ne] hd by (simp_all add: mean var)
  let ?t0 = "t\<lparr>normalize_output := False\<rparr>"
  have "aggregate ?t0 outs flag
      = Inr (mean_prediction outs, variance_prediction outs,
             if flag then Some (map (map fst) outs) else None)"
    using ne by (subst aggregate_raw) simp_all
  then have raw: "predict h ?t0 x flag
          = Inr ((mean_prediction outs, variance_prediction outs,
                  if flag then Some (map (map fst) outs) else None), h', ?t0)"
    unfolding predict_Inr_iff
    using n e
    by (simp add: normalize_test_input_normalize_output ensemble_outputs_normalize_output)
  from n e ne len mean var ind lm pt raw show ?thesis by blast
qed

lemma predict_from_raw:
  assumes "normalize_output t" and "y_mean t = Some mu" and "y_std t = Some sigma"
    and "predict h (t\<lparr>normalize_output := False\<rparr>) x flag = Inr ((m0, v0, i0), h', t0)"
  shows "predict h t x flag =
     Inr ((map (\<lambda>m. m * sigma + mu) m0, map (\<lambda>v. v * sigma\<^sup>2) v0,
           map_option (map (map (\<lambda>m. m * sigma + mu))) i0), h', t)"
proof -
  let ?t0 = "t\<lparr>normalize_output := False\<rparr>"
  from assms(4) obtain x' outs where
    n: "normalize_test_input ?t0 x = Inr x'" and e: "ensemble_outputs h ?t0 x' = Inr (outs, h')"
    and a: "aggregate ?t0 outs flag = Inr (m0, v0, i0)"
    unfolding predict_Inr_iff by blast
  have n': "normalize_test_input t x = Inr x'"
    using n by (simp add: normalize_test_input_normalize_output)
  have e': "ensemble_outputs h t x' = Inr (outs, h')"
    using e by (simp add: ensemble_outputs_normalize_output)
  from a have ne: "outs \<noteq> []" and r: "m0 = mean_prediction outs" "v0 = variance_prediction outs"
     "i0 = (if flag then Some (map (map fst) outs) else None)"
    by (auto simp: aggregate_def split: if_splits)
  have "aggregate t outs flag = Inr (map (\<lambda>m. m * sigma + mu) m0, map (\<lambda>v. v * sigma\<^sup>2) v0,
           map_option (map (map (\<lambda>m. m * sigma + mu))) i0)"
    using assms(1-3) ne r
    by (simp add: aggregate_def zero_mean_unit_var_unnormalization_def case_prod_beta comp_def)
  then show ?thesis
    using n' e' by (simp add: predict_def)
qed

lemma example_prediction:
  "predict trained_heap trained_trainer example_x False
     = Inr (([14, 14], [8, 8], None), trained_heap\<lparr>cells := (cells trained_heap)(0 := vec [3])\<rparr>,
          trained_trainer)"
  by (simp add: predict_def normalize_test_input_def ensemble_outputs_def aggregate_def
      trained_heap_def trained_trainer_def example_x_def example_forward_def vec_def
      tensor_copy_def
      zero_mean_unit_var_normalization_with_def broadcast_cols_def
      zero_mean_unit_var_unnormalization_def
      mean_prediction_def variance_prediction_def np_mean_axis0_def np_mean_def column_def)

text \<open>
  Claim C7. On a trainer with output normalization and statistics \<open>(mu, sigma)\<close>, what
  \<^verbatim>\<open>predict\<close> returns is fixed by the outputs of the network for the snapshots: with
  \<open>S\<close> snapshots, the mean at a test point is the raw ensemble mean (the arithmetic mean
  of the \<open>S\<close> predicted means) times \<open>sigma\<close> plus \<open>mu\<close>, and the variance is the raw
  ensemble variance (the mean of \<open>\<mu>\<^sup>2 + exp l\<close> minus the square of the raw mean) times
  \<open>sigma\<^sup>2\<close>. The raw moments are what the same call returns with the un-normalization
  switched off, and whenever that call returns, so does the call with the
  un-normalization, with the raw mean mapped through \<open>m * sigma + mu\<close> and the raw
  variance times \<open>sigma\<^sup>2\<close>.
\<close>

theorem predict_unnormalizes_mean_and_variance:
  assumes "normalize_output t" and "y_mean t = Some mu" and "y_std t = Some sigma"
  shows "(predict h t x flag = Inr ((mean, var, ind), h', t') \<longrightarrow>
     (\<exists>x' outs. normalize_test_input t x = Inr x'
        \<and> ensemble_outputs h t x' = Inr (outs, h') \<and> outs \<noteq> []
        \<and> (\<forall>r\<in>set outs. length r = length (rows x'))
        \<and> mean = map (\<lambda>a. a * sigma + mu) (mean_prediction outs)
        \<and> var = map (\<lambda>v. v * sigma\<^sup>2) (variance_prediction outs)
        \<and> ind = (if flag then Some (map (map (\<lambda>(a, l). a * sigma + mu)) outs) else None)
        \<and> length mean = length (rows x') \<and> length var = length (rows x')
        \<and> (\<forall>i<length (rows x').
              mean ! i = (\<Sum>s<length outs. fst (outs ! s ! i)) / real (length outs) * sigma + mu
              \<and> var ! i =
                  ((\<Sum>s<length outs. (fst (outs ! s ! i))\<^sup>2 + exp (snd (outs ! s ! i)))
                      / real (length outs)
                    - ((\<Sum>s<length outs. fst (outs ! s ! i)) / real (length outs))\<^sup>2) * sigma\<^sup>2)
        \<and> predict h (t\<lparr>normalize_output := False\<rparr>) x flag
            = Inr ((mean_prediction outs, variance_prediction outs,
                    if flag then Some (map (map fst) outs) else None),
                   h', t\<lparr>normalize_output := False\<rparr>)))
   \<and> (predict h (t\<lparr>normalize_output := False\<rparr>) x flag = Inr ((m0, v0, i0), h', t0) \<longrightarrow>
        predict h t x flag =
          Inr ((map (\<lambda>m. m * sigma + mu) m0, map (\<lambda>v. v * sigma\<^sup>2) v0,
                map_option (map (map (\<lambda>m. m * sigma + mu))) i0), h', t))"
  using predict_normalized [OF assms, of h x flag mean var ind h' t']
    predict_from_raw [OF assms, of h x flag m0 v0 i0 h' t0]
  by blast

theorem predict_unnormalizes_mean_and_variance_witness:
  "predict trained_heap trained_trainer example_x False
     = Inr (([14, 14], [8, 8], None), trained_heap\<lparr>cells := (cells trained_heap)(0 := vec [3])\<rparr>,
          trained_trainer)
   \<and> predict trained_heap (trained_trainer\<lparr>normalize_output := False\<rparr>) example_x False
     = Inr (([2, 2], [2, 2], None), trained_heap\<lparr>cells := (cells trained_heap)(0 := vec [3])\<rparr>,
          trained_trainer\<lparr>normalize_output := False\<rparr>)
   \<and> (\<exists>x' outs.
         ensemble_outputs trained_heap trained_trainer x'
           = Inr (outs, trained_heap\<lparr>cells := (cells trained_heap)(0 := vec [3])\<rparr>)
         \<and> mean_prediction outs = [2, 2] \<and> variance_prediction outs = [2, 2]
         \<and> [14, 14] = map (\<lambda>a. a * 2 + 10) (mean_prediction outs)
         \<and> [8, 8] = map (\<lambda>v. v * 2\<^sup>2) (variance_prediction outs))"
proof -
  have s: "normalize_output trained_trainer" "y_mean trained_trainer = Some 10"
    "y_std trained_trainer = Some 2"
    by (simp_all add: trained_trainer_def)
  from predict_unnormalizes_mean_and_variance [OF s, THEN conjunct1, THEN mp,
      OF example_prediction]
  obtain x' outs where
    e: "ensemble_outputs trained_heap trained_trainer x'
           = Inr (outs, trained_heap\<lparr>cells := (cells trained_heap)(0 := vec [3])\<rparr>)"
    and m: "[14, 14] = map (\<lambda>a. a * 2 + 10) (mean_prediction outs)"
    and v: "[8, 8] = map (\<lambda>v. v * 2\<^sup>2) (variance_prediction outs)"
    and r: "predict trained_heap (trained_trainer\<lparr>normalize_output := False\<rparr>) example_x False
            = Inr ((mean_prediction outs, variance_prediction outs,
                    if False then Some (map (map fst) outs) else None),
                   trained_heap\<lparr>cells := (cells trained_heap)(0 := vec [3])\<rparr>,
                   trained_trainer\<lparr>normalize_output := False\<rparr>)"
    by (elim exE conjE) (rule that; assumption)
  from r have mo: "mean_prediction outs = [2, 2]" and va: "variance_prediction outs = [2, 2]"
    unfolding example_raw_prediction by auto
  show ?thesis
    by (intro conjI exI; (rule e m v mo va example_prediction example_raw_prediction))
qed

section \<open>What \<^verbatim>\<open>predict\<close> changes\<close>







section \<open>Snapshots are copies\<close>

lemma example_stream:
  "training_stream example_trainer example_x example_y k
     = Some (rows (fst (zero_mean_unit_var_normalization example_x)),
             fst (zero_mean_unit_var_normalization_1d example_y))"
  by (simp add: training_stream_def infinite_dataloader_def DataLoader_def example_trainer_def
      length_rows_normalization length_normalization_1d example_x_def example_y_def)

lemma example_values_after:
  "values_after example_sampler f (training_stream example_trainer example_x example_y)
     ((), [vec [v]]) k = ((), [vec [v + real k]])"
  by (induction k) (simp_all add: example_stream example_sampler_def inplace_def vec_def)

lemma example_parameters_after:
  "parameters_after example_sampler example_trainer example_x example_y B lr noise mdecay k
     = [vec [real k]]"
  using example_values_after [of "forward_pass (example_network (ncols example_x))" 0 k]
  by (simp add: parameters_after_def example_trainer_def example_network_def
      example_sampler_def)

lemma example_recording_steps: "recording_steps 2 1 6 = [3, 5]"
  by (simp add: recording_steps_def upt_rec)

text \<open>
  Claim C9. When \<^verbatim>\<open>train\<close> returns, every stored snapshot still holds the values the
  parameters had right after the sampler step of its recording step, although the
  parameters were overwritten in place by every later step; no array of a snapshot is a
  parameter tensor; and a later \<^verbatim>\<open>predict\<close>, which overwrites the parameters with one
  snapshot after the other, changes no snapshot, whether it returns or raises.
\<close>

theorem snapshots_are_deep_copies:
  assumes "normalize_input t" and "normalize_output t" and "1 \<le> batch_size t"
    and "rows x \<noteq> []" and "length y = length (rows x)"
    and "0 \<le> S" and "S \<le> sys_maxsize" and "K \<noteq> 0 \<or> S \<le> B + 1"
  shows "\<exists>h1 t1 m. train smp h t x y S K B lr noise mdecay = Inr (h1, t1)
     \<and> map (map (cells h1)) (sampled_weights t1)
         = map (\<lambda>step. parameters_after smp t x y B lr noise mdecay (Suc step))
             (recording_steps K B (nat S))
     \<and> model t1 = Some m
     \<and> map (cells h1) (parameters m) = parameters_after smp t x y B lr noise mdecay (nat S)
     \<and> (\<forall>w\<in>set (sampled_weights t1). set w \<inter> set (parameters m) = {})
     \<and> (\<forall>x' flag r e h2 t2.
           predict h1 t1 x' flag = Inr (r, h2, t2) \<or> predict h1 t1 x' flag = Inl (e, h2, t2) \<longrightarrow>
             map (map (cells h2)) (sampled_weights t1) = map (map (cells h1)) (sampled_weights t1))"
proof -
  from train_run [OF assms, of smp h lr noise mdecay] obtain h1 t1 m where
    tr: "train smp h t x y S K B lr noise mdecay = Inr (h1, t1)"
    and m: "model t1 = Some m"
    and ps: "parameters m = [next_addr h..<next_addr h
                + length (initial_parameters (get_network t (ncols x)))]"
    and cur: "map (cells h1) (parameters m) = parameters_after smp t x y B lr noise mdecay (nat S)"
    and cont: "map (map (cells h1)) (sampled_weights t1)
          = map (\<lambda>step. parameters_after smp t x y B lr noise mdecay (Suc step))
              (recording_steps K B (nat S))"
    and addrs: "\<forall>w\<in>set (sampled_weights t1). length w = length (parameters m)
            \<and> (\<forall>a\<in>set w. next_addr h + length (parameters m) \<le> a \<and> a < next_addr h1)"
    by blast
  have disj: "\<forall>w\<in>set (sampled_weights t1). set w \<inter> set (parameters m) = {}"
  proof
    fix w assume w: "w \<in> set (sampled_weights t1)"
    have "\<And>a. a \<in> set w \<Longrightarrow> a \<notin> set (parameters m)"
    proof -
      fix a assume "a \<in> set w"
      then have "next_addr h + length (parameters m) \<le> a" using addrs w by blast
      then show "a \<notin> set (parameters m)" unfolding ps by simp
    qed
    then show "set w \<inter> set (parameters m) = {}" by blast
  qed
  have wf: "wf_state t1" by (rule train_establishes_wf_state [OF tr])
  have pr: "\<forall>x' flag r e h2 t2.
           predict h1 t1 x' flag = Inr (r, h2, t2) \<or> predict h1 t1 x' flag = Inl (e, h2, t2) \<longrightarrow>
             map (map (cells h2)) (sampled_weights t1) = map (map (cells h1)) (sampled_weights t1)"
    using predict_keeps_snapshots [OF wf] by blast
  show ?thesis
    using tr cont m cur disj pr by blast
qed

theorem snapshots_are_deep_copies_witness:
  "\<exists>h1 t1 m. train example_sampler example_heap example_trainer example_x example_y
                6 2 1 (1 / 100) 0 (1 / 20) = Inr (h1, t1)
     \<and> map (map (cells h1)) (sampled_weights t1) = [[vec [4]], [vec [6]]]
     \<and> model t1 = Some m
     \<and> map (cells h1) (parameters m) = [vec [6]]"
proof -
  from snapshots_are_deep_copies [OF example_preconditions _ sys_maxsize_bounds(3),
      of 2 1 example_sampler example_heap "1 / 100" 0 "1 / 20"]
  obtain h1 t1 m where
    "train example_sampler example_heap example_trainer example_x example_y
                6 2 1 (1 / 100) 0 (1 / 20) = Inr (h1, t1)"
    "map (map (cells h1)) (sampled_weights t1)
         = map (\<lambda>step. parameters_after example_sampler example_trainer example_x example_y
                          1 (1 / 100) 0 (1 / 20) (Suc step))
             (recording_steps 2 1 (nat 6))"
    "model t1 = Some m"
    "map (cells h1) (parameters m)
       = parameters_after example_sampler example_trainer example_x example_y
           1 (1 / 100) 0 (1 / 20) (nat 6)"
    by auto
  then show ?thesis
    by (simp add: example_parameters_after example_recording_steps)
qed

end
